theory Spec2Isabelle
  imports Complex_Main "HOL-Library.Sublist"
begin

section \<open>JavaScript numbers\<close>

text \<open>
  The crawler stores timestamps, sizes and durations in JavaScript numbers, which are IEEE
  754 doubles. The model keeps the three non-finite values apart from the finite ones and
  holds a finite double as the rational number that it is; the two zeros are not told
  apart, as \<open>===\<close> does not tell them apart. Sums and quotients are rounded to the nearest
  double, below.
\<close>

datatype jsnum = NaN | NegInf | Fin rat | PosInf

text \<open>The relational operator \<open><\<close> of the language: false as soon as one side is \<open>NaN\<close>.\<close>

fun jlt :: "jsnum \<Rightarrow> jsnum \<Rightarrow> bool" where
  "jlt NaN _ = False"
| "jlt _ NaN = False"
| "jlt (Fin a) (Fin b) = (a < b)"
| "jlt NegInf NegInf = False"
| "jlt NegInf _ = True"
| "jlt _ NegInf = False"
| "jlt PosInf _ = False"
| "jlt _ PosInf = True"

text \<open>\<open>a > b\<close> is \<open>b < a\<close>; \<open>a >= b\<close> is false on \<open>NaN\<close> and otherwise the negation of \<open>a < b\<close>.\<close>

definition jgt :: "jsnum \<Rightarrow> jsnum \<Rightarrow> bool" where
  "jgt a b = jlt b a"

definition jge :: "jsnum \<Rightarrow> jsnum \<Rightarrow> bool" where
  "jge a b = (a \<noteq> NaN \<and> b \<noteq> NaN \<and> \<not> jlt a b)"

text \<open>Truthiness of a number: \<open>0\<close> and \<open>NaN\<close> are falsy.\<close>

definition num_truthy :: "jsnum \<Rightarrow> bool" where
  "num_truthy n = (n \<noteq> NaN \<and> n \<noteq> Fin 0)"

text \<open>\<open>Number.isFinite\<close>.\<close>

fun isFinite :: "jsnum \<Rightarrow> bool" where
  "isFinite (Fin _) = True"
| "isFinite _ = False"

text \<open>
  Rounding of an exact result to a double: round to the nearest multiple of the unit in
  the last place, a tie going to the even multiple. For \<open>x > 0\<close>, \<open>floor_log2 x\<close> is the
  \<open>e\<close> with \<open>2^e \<le> x < 2^(e+1)\<close>; a double has 53 significant bits, so the unit is
  \<open>2^(e-52)\<close>, and \<open>2^(-1074)\<close> for the subnormal numbers below \<open>2^(-1022)\<close>. A rounded
  magnitude of \<open>2^1024\<close> or more is an infinity.
\<close>

function bit_length :: "int \<Rightarrow> nat" where
  "bit_length n = (if n \<le> 0 then 0 else Suc (bit_length (n div 2)))"
  by pat_completeness auto
termination
  by (relation "measure nat") auto

declare bit_length.simps [simp del]

definition floor_log2 :: "rat \<Rightarrow> int" where
  "floor_log2 x =
     (if 1 \<le> x then int (bit_length \<lfloor>x\<rfloor>) - 1
      else - int (bit_length (\<lceil>1 / x\<rceil> - 1)))"

definition two_to :: "int \<Rightarrow> rat" where
  "two_to e = (if 0 \<le> e then 2 ^ nat e else 1 / 2 ^ nat (- e))"

definition round_half_even :: "rat \<Rightarrow> int" where
  "round_half_even x =
     (let f = \<lfloor>x\<rfloor>; d = x - of_int f
      in if d < 1 / 2 then f else if 1 / 2 < d then f + 1 else if even f then f else f + 1)"

definition to_double :: "rat \<Rightarrow> jsnum" where
  "to_double x =
     (if x = 0 then Fin 0
      else
        let e = max (floor_log2 \<bar>x\<bar>) (- 1022);
            ulp = two_to (e - 52);
            m = of_int (round_half_even (\<bar>x\<bar> / ulp)) * ulp
        in if two_to 1024 \<le> m then (if 0 < x then PosInf else NegInf)
           else Fin (if 0 < x then m else - m))"

text \<open>The operator \<open>+\<close> on numbers.\<close>

fun jadd :: "jsnum \<Rightarrow> jsnum \<Rightarrow> jsnum" where
  "jadd NaN _ = NaN"
| "jadd _ NaN = NaN"
| "jadd (Fin a) (Fin b) = to_double (a + b)"
| "jadd PosInf NegInf = NaN"
| "jadd NegInf PosInf = NaN"
| "jadd PosInf _ = PosInf"
| "jadd _ PosInf = PosInf"
| "jadd NegInf _ = NegInf"
| "jadd _ NegInf = NegInf"

section \<open>Queue items (types/queue.d.ts)\<close>

text \<open>
  The status strings that the queue and the crawler write into an item: the members of
  \<open>QueueItemStatus\<close> and the literals \<open>"downloaded"\<close>, \<open>"timeout"\<close>, \<open>"disallowed"\<close> and
  \<open>"downloadprevented"\<close> of the crawler.
\<close>

datatype status =
    Created | Queued | Spooled | Headers | Download | Downloaded | Redirected
  | NotFound | Failed | Timeout | Disallowed | DownloadPrevented

text \<open>
  \<open>StateData\<close>: every field is optional, \<open>None\<close> is \<open>undefined\<close>. The header map of the
  response is left out; no operation below reads it.
\<close>

record StateData =
  requestLatency :: "jsnum option"
  requestTime :: "jsnum option"
  downloadTime :: "jsnum option"
  contentLength :: "jsnum option"
  contentType :: "string option"
  code :: "nat option"
  actualDataSize :: "jsnum option"
  sentIncorrectSize :: "bool option"

text \<open>
  \<open>QueueItem\<close>. The field \<open>id\<close> is written \<open>item_id\<close>; it is \<open>undefined\<close> (\<open>None\<close>) until the
  queue assigns it. \<open>port\<close> is \<open>Number(url.port())\<close>, so a URL without a port has port 0.
\<close>

record QueueItem =
  item_id :: "nat option"
  url :: string
  protocol :: string
  host :: string
  port :: nat
  path :: string
  uriPath :: string
  depth :: nat
  referrer :: string
  fetched :: bool
  stateData :: StateData
  status :: status

definition empty_stateData :: StateData where
  "empty_stateData =
     \<lparr> requestLatency = None, requestTime = None, downloadTime = None, contentLength = None,
       contentType = None, code = None, actualDataSize = None, sentIncorrectSize = None \<rparr>"

text \<open>
  Queue items are objects: the queue holds references to them, and the caller of \<open>add\<close>
  keeps its own reference to the same object. The store maps a reference to the object's
  current fields.
\<close>

type_synonym ref = nat
type_synonym heap = "ref \<Rightarrow> QueueItem"

section \<open>The fetch queue (queue.ts)\<close>

text \<open>
  The second argument of \<open>deepAssign\<close> as \<open>update\<close> receives it: an object holding some of
  the fields of an item. A field that is absent is \<open>None\<close>; \<open>stateData\<close> is itself an object
  and is merged field by field. A field of \<open>stateData\<close> that is present may hold
  \<open>undefined\<close>.
\<close>

record StateDataUpdate =
  u_requestLatency :: "jsnum option option"
  u_requestTime :: "jsnum option option"
  u_downloadTime :: "jsnum option option"
  u_contentLength :: "jsnum option option"
  u_contentType :: "string option option"
  u_code :: "nat option option"
  u_actualDataSize :: "jsnum option option"
  u_sentIncorrectSize :: "bool option option"

record ItemUpdate =
  u_id :: "nat option"
  u_url :: "string option"
  u_protocol :: "string option"
  u_host :: "string option"
  u_port :: "nat option"
  u_path :: "string option"
  u_uriPath :: "string option"
  u_depth :: "nat option"
  u_referrer :: "string option"
  u_fetched :: "bool option"
  u_stateData :: "StateDataUpdate option"
  u_status :: "status option"


definition no_update :: ItemUpdate where
  "no_update =
     \<lparr> u_id = None, u_url = None, u_protocol = None, u_host = None, u_port = None,
       u_path = None, u_uriPath = None, u_depth = None, u_referrer = None,
       u_fetched = None, u_stateData = None, u_status = None \<rparr>"

text \<open>\<open>object[key] = source[key]\<close> for a key that the source may or may not own.\<close>

fun assign :: "'a option \<Rightarrow> 'a \<Rightarrow> 'a" where
  "assign None old = old"
| "assign (Some v) old = v"

definition deepAssign_stateData :: "StateData \<Rightarrow> StateDataUpdate \<Rightarrow> StateData" where
  "deepAssign_stateData sd src =
     \<lparr> requestLatency = assign (u_requestLatency src) (requestLatency sd),
       requestTime = assign (u_requestTime src) (requestTime sd),
       downloadTime = assign (u_downloadTime src) (downloadTime sd),
       contentLength = assign (u_contentLength src) (contentLength sd),
       contentType = assign (u_contentType src) (contentType sd),
       code = assign (u_code src) (code sd),
       actualDataSize = assign (u_actualDataSize src) (actualDataSize sd),
       sentIncorrectSize = assign (u_sentIncorrectSize src) (sentIncorrectSize sd) \<rparr>"

definition deepAssign :: "QueueItem \<Rightarrow> ItemUpdate \<Rightarrow> QueueItem" where
  "deepAssign obj src =
     \<lparr> item_id = (case u_id src of None \<Rightarrow> item_id obj | Some n \<Rightarrow> Some n),
       url = assign (u_url src) (url obj),
       protocol = assign (u_protocol src) (protocol obj),
       host = assign (u_host src) (host obj),
       port = assign (u_port src) (port obj),
       path = assign (u_path src) (path obj),
       uriPath = assign (u_uriPath src) (uriPath obj),
       depth = assign (u_depth src) (depth obj),
       referrer = assign (u_referrer src) (referrer obj),
       fetched = assign (u_fetched src) (fetched obj),
       stateData = (case u_stateData src of
                      None \<Rightarrow> stateData obj
                    | Some u \<Rightarrow> deepAssign_stateData (stateData obj) u),
       status = assign (u_status src) (status obj) \<rparr>"

text \<open>
  The queue is an array of item references with two hidden fields, the cursor
  \<open>_oldestUnfetchedIndex\<close> and the set \<open>_scanIndex\<close>. The cursor is a number: \<open>defrost\<close> can
  make it \<open>-1\<close>.
\<close>

record FetchQueue =
  items :: "ref list"
  oldestUnfetchedIndex :: int
  scanIndex :: "string set"

definition new_FetchQueue :: FetchQueue where
  "new_FetchQueue = \<lparr> items = [], oldestUnfetchedIndex = 0, scanIndex = {} \<rparr>"

definition allowedStatistics :: "string set" where
  "allowedStatistics =
     {''actualDataSize'', ''contentLength'', ''downloadTime'', ''requestLatency'',
      ''requestTime''}"

text \<open>
  What a callback receives as its first argument, and \<open>TypeErrorThrown\<close> for an exception
  that leaves the method instead of reaching the callback.
\<close>

datatype queue_error =
    Duplicate | AddTwice | RangeError | NoItemFound | InvalidStatistic
  | ReadError | ZeroLength | ParseError | TypeErrorThrown

text \<open>\<open>exists\<close> looks the URL up in the scan index.\<close>

definition exists_url :: "FetchQueue \<Rightarrow> string \<Rightarrow> bool" where
  "exists_url q u = (u \<in> scanIndex q)"

text \<open>
  The inner function \<open>addToQueue\<close> of \<open>add\<close>: record the URL, set \<open>id\<close> to the current
  length and \<open>status\<close> to \<open>queued\<close> on the object, push the reference.
\<close>

definition addToQueue :: "FetchQueue \<Rightarrow> heap \<Rightarrow> ref \<Rightarrow> FetchQueue \<times> heap" where
  "addToQueue q h r =
     (q\<lparr> scanIndex := insert (url (h r)) (scanIndex q), items := items q @ [r] \<rparr>,
      h(r := (h r)\<lparr> item_id := Some (length (items q)), status := Queued \<rparr>))"

text \<open>
  \<open>add\<close> returns what the callback receives (\<open>Inl\<close> the error, \<open>Inr\<close> the item) and the
  queue and store afterwards. \<open>this.includes(queueItem)\<close> compares references.
\<close>

definition add ::
  "FetchQueue \<Rightarrow> heap \<Rightarrow> ref \<Rightarrow> bool \<Rightarrow> (queue_error + ref) \<times> FetchQueue \<times> heap" where
  "add q h r force =
     (if \<not> exists_url q (url (h r)) then
        (Inr r, addToQueue q h r)
      else if force then
        (if r \<in> set (items q) then (Inl AddTwice, q, h)
         else (Inr r, addToQueue q h r))
      else (Inl Duplicate, q, h))"

text \<open>\<open>get\<close>.\<close>

definition get_item :: "FetchQueue \<Rightarrow> nat \<Rightarrow> queue_error + ref" where
  "get_item q i = (if i \<ge> length (items q) then Inl RangeError else Inr (items q ! i))"

text \<open>The linear search of \<open>update\<close>: the first item whose \<open>id\<close> is the given one.\<close>

fun find_by_id :: "heap \<Rightarrow> ref list \<Rightarrow> nat option \<Rightarrow> ref option" where
  "find_by_id h [] i = None"
| "find_by_id h (r # rs) i = (if item_id (h r) = i then Some r else find_by_id h rs i)"

definition update ::
  "FetchQueue \<Rightarrow> heap \<Rightarrow> nat option \<Rightarrow> ItemUpdate \<Rightarrow> (queue_error + ref) \<times> heap" where
  "update q h i updates =
     (case find_by_id h (items q) i of
        None \<Rightarrow> (Inl NoItemFound, h)
      | Some r \<Rightarrow> (Inr r, h(r := deepAssign (h r) updates)))"

text \<open>
  The loop of \<open>oldestUnfetchedItem\<close> from index \<open>i\<close>: the first index at or after \<open>i\<close>
  whose item has status \<open>queued\<close>.
\<close>

function oldest_loop :: "heap \<Rightarrow> ref list \<Rightarrow> nat \<Rightarrow> nat option" where
  "oldest_loop h xs i =
     (if i < length xs then
        (if status (h (xs ! i)) = Queued then Some i else oldest_loop h xs (Suc i))
      else None)"
  by pat_completeness auto
termination
  by (relation "measure (\<lambda>(h, xs, i). length xs - i)") auto

declare oldest_loop.simps [simp del]

text \<open>
  \<open>oldestUnfetchedItem\<close>. With a negative cursor the first iteration reads \<open>this[-1]\<close>,
  which is \<open>undefined\<close>, and the read of its \<open>status\<close> throws. Otherwise the callback
  receives \<open>(null, item)\<close> or \<open>(null, null)\<close>; the item is \<open>Some\<close> reference, \<open>null\<close> is
  \<open>None\<close>.
\<close>

definition oldestUnfetchedItem ::
  "FetchQueue \<Rightarrow> heap \<Rightarrow> (queue_error + ref option) \<times> FetchQueue" where
  "oldestUnfetchedItem q h =
     (if oldestUnfetchedIndex q < 0 then (Inl TypeErrorThrown, q)
      else
        (case oldest_loop h (items q) (nat (oldestUnfetchedIndex q)) of
           Some i \<Rightarrow> (Inr (Some (items q ! i)), q\<lparr> oldestUnfetchedIndex := int i \<rparr>)
         | None \<Rightarrow> (Inr None, q)))"

text \<open>
  \<open>item.stateData[statisticName]\<close> for the names of the whitelist; any other name is
  refused before the field is read.
\<close>

definition statistic :: "string \<Rightarrow> StateData \<Rightarrow> jsnum option" where
  "statistic nm sd =
     (if nm = ''actualDataSize'' then actualDataSize sd
      else if nm = ''contentLength'' then contentLength sd
      else if nm = ''downloadTime'' then downloadTime sd
      else if nm = ''requestLatency'' then requestLatency sd
      else if nm = ''requestTime'' then requestTime sd
      else None)"

text \<open>A comparison with \<open>undefined\<close> is a comparison with \<open>NaN\<close>.\<close>

fun to_number :: "jsnum option \<Rightarrow> jsnum" where
  "to_number None = NaN"
| "to_number (Some n) = n"

text \<open>\<open>max\<close>: the body of the \<open>forEach\<close> and the method.\<close>

definition max_body :: "heap \<Rightarrow> string \<Rightarrow> jsnum \<Rightarrow> ref \<Rightarrow> jsnum" where
  "max_body h nm maximum r =
     (if fetched (h r) \<and> jgt (to_number (statistic nm (stateData (h r)))) maximum
      then to_number (statistic nm (stateData (h r)))
      else maximum)"

definition queue_max :: "FetchQueue \<Rightarrow> heap \<Rightarrow> string \<Rightarrow> queue_error + jsnum" where
  "queue_max q h nm =
     (if nm \<notin> allowedStatistics then Inl InvalidStatistic
      else Inr (foldl (max_body h nm) (Fin 0) (items q)))"

text \<open>\<open>min\<close>.\<close>

definition min_body :: "heap \<Rightarrow> string \<Rightarrow> jsnum \<Rightarrow> ref \<Rightarrow> jsnum" where
  "min_body h nm minimum r =
     (if fetched (h r) \<and> jlt (to_number (statistic nm (stateData (h r)))) minimum
      then to_number (statistic nm (stateData (h r)))
      else minimum)"

definition queue_min :: "FetchQueue \<Rightarrow> heap \<Rightarrow> string \<Rightarrow> queue_error + jsnum" where
  "queue_min q h nm =
     (if nm \<notin> allowedStatistics then Inl InvalidStatistic
      else
        let minimum = foldl (min_body h nm) PosInf (items q)
        in Inr (if minimum = PosInf then Fin 0 else minimum))"

text \<open>
  \<open>avg\<close>: \<open>sum\<close> and \<open>count\<close> run over the fetched items whose value passes
  \<open>Number.isFinite\<close>; \<open>sum += value\<close> is an addition of doubles, and the result is
  \<open>sum / count\<close>, a division of doubles: \<open>0 / 0\<close> is \<open>NaN\<close>, and an infinite sum stays
  infinite. The counter is an integer.
\<close>

fun finite_value :: "jsnum \<Rightarrow> rat" where
  "finite_value (Fin x) = x"
| "finite_value _ = 0"

definition avg_body :: "heap \<Rightarrow> string \<Rightarrow> jsnum \<times> nat \<Rightarrow> ref \<Rightarrow> jsnum \<times> nat" where
  "avg_body h nm acc r =
     (if fetched (h r) \<and> isFinite (to_number (statistic nm (stateData (h r))))
      then (jadd (fst acc) (to_number (statistic nm (stateData (h r)))), Suc (snd acc))
      else acc)"

definition js_divide :: "jsnum \<Rightarrow> nat \<Rightarrow> jsnum" where
  "js_divide s c =
     (case s of
        Fin a \<Rightarrow>
          if c = 0 then (if a = 0 then NaN else if 0 < a then PosInf else NegInf)
          else to_double (a / of_nat c)
      | other \<Rightarrow> other)"

definition queue_avg :: "FetchQueue \<Rightarrow> heap \<Rightarrow> string \<Rightarrow> queue_error + jsnum" where
  "queue_avg q h nm =
     (if nm \<notin> allowedStatistics then Inl InvalidStatistic
      else
        let acc = foldl (avg_body h nm) (Fin 0, 0) (items q)
        in Inr (js_divide (fst acc) (snd acc)))"

text \<open>\<open>getLength\<close>.\<close>

definition getLength :: "FetchQueue \<Rightarrow> nat" where
  "getLength q = length (items q)"

text \<open>
  \<open>freeze\<close> sets every item that is not fetched back to \<open>queued\<close> before the array is
  written out. The write itself is outside the model.
\<close>

fun freeze_items :: "heap \<Rightarrow> ref list \<Rightarrow> heap" where
  "freeze_items h [] = h"
| "freeze_items h (r # rs) =
     freeze_items (if \<not> fetched (h r) then h(r := (h r)\<lparr> status := Queued \<rparr>) else h) rs"

definition freeze :: "FetchQueue \<Rightarrow> heap \<Rightarrow> heap" where
  "freeze q h = freeze_items h (items q)"

text \<open>
  \<open>defrost\<close>. The file is read and parsed by the runtime: the read fails, or the file is
  empty, or \<open>JSON.parse\<close> throws, or it returns an array of new objects, given here by
  their references in the store. The items are pushed onto \<open>this\<close>, whatever it holds
  already; the scan index is replaced; the cursor starts at the last index of the parsed
  array and goes down to the index, in the parsed array, of each queued item below it.
\<close>

datatype defrost_file = ReadFails | EmptyFile | ParseFails | Parsed "ref list"

fun defrost_loop :: "heap \<Rightarrow> ref list \<Rightarrow> nat \<Rightarrow> FetchQueue \<Rightarrow> FetchQueue" where
  "defrost_loop h [] index q = q"
| "defrost_loop h (r # rs) index q =
     defrost_loop h rs (Suc index)
       (let q1 = q\<lparr> items := items q @ [r], scanIndex := insert (url (h r)) (scanIndex q) \<rparr>
        in if status (h r) = Queued \<and> oldestUnfetchedIndex q1 > int index
           then q1\<lparr> oldestUnfetchedIndex := int index \<rparr>
           else q1)"

definition defrost :: "FetchQueue \<Rightarrow> heap \<Rightarrow> defrost_file \<Rightarrow> queue_error + FetchQueue" where
  "defrost q h file =
     (case file of
        ReadFails \<Rightarrow> Inl ReadError
      | EmptyFile \<Rightarrow> Inl ZeroLength
      | ParseFails \<Rightarrow> Inl ParseError
      | Parsed defrostedQueue \<Rightarrow>
          Inr (defrost_loop h defrostedQueue 0
                 (q\<lparr> oldestUnfetchedIndex := int (length defrostedQueue) - 1,
                     scanIndex := {} \<rparr>)))"

text \<open>
  A caller of the queue: the operations that change the queue or its items. \<open>Mutate\<close> is
  any write to the item objects from outside the queue.
\<close>

datatype queue_op =
    Add ref bool
  | Update "nat option" ItemUpdate
  | OldestUnfetchedItem
  | Freeze
  | Mutate "heap \<Rightarrow> heap"

text \<open>
  What a call of \<open>oldestUnfetchedItem\<close> did: it found an item at an index, found none, or
  failed.
\<close>

datatype oldest_result = Found nat ref | NoneLeft | Failure queue_error

fun exec_op ::
  "queue_op \<Rightarrow> FetchQueue \<times> heap \<Rightarrow> oldest_result list \<times> FetchQueue \<times> heap" where
  "exec_op (Add r force) (q, h) = ([], snd (add q h r force))"
| "exec_op (Update i u) (q, h) = ([], q, snd (update q h i u))"
| "exec_op OldestUnfetchedItem (q, h) =
     (case oldestUnfetchedItem q h of
        (Inl e, q') \<Rightarrow> ([Failure e], q', h)
      | (Inr None, q') \<Rightarrow> ([NoneLeft], q', h)
      | (Inr (Some r), q') \<Rightarrow> ([Found (nat (oldestUnfetchedIndex q')) r], q', h))"
| "exec_op Freeze (q, h) = ([], q, freeze q h)"
| "exec_op (Mutate f) (q, h) = ([], q, f h)"

fun run_ops ::
  "queue_op list \<Rightarrow> FetchQueue \<times> heap \<Rightarrow> oldest_result list \<times> FetchQueue \<times> heap" where
  "run_ops [] s = ([], s)"
| "run_ops (op # ops) s =
     (case exec_op op s of
        (out, s') \<Rightarrow> (case run_ops ops s' of (outs, s'') \<Rightarrow> (out @ outs, s'')))"

text \<open>The indices at which the calls of \<open>oldestUnfetchedItem\<close> found their items, in order.\<close>

fun found_indices :: "oldest_result list \<Rightarrow> nat list" where
  "found_indices [] = []"
| "found_indices (Found i r # rs) = i # found_indices rs"
| "found_indices (NoneLeft # rs) = found_indices rs"
| "found_indices (Failure e # rs) = found_indices rs"

fun failures :: "oldest_result list \<Rightarrow> queue_error list" where
  "failures [] = []"
| "failures (Failure e # rs) = e # failures rs"
| "failures (Found i r # rs) = failures rs"
| "failures (NoneLeft # rs) = failures rs"

text \<open>
  \<open>k\<close> is the first index at or after \<open>c\<close> whose item is queued; no index at or after \<open>c\<close>
  has a queued item.
\<close>

definition first_queued_from :: "heap \<Rightarrow> ref list \<Rightarrow> nat \<Rightarrow> nat \<Rightarrow> bool" where
  "first_queued_from h xs c k =
     (c \<le> k \<and> k < length xs \<and> status (h (xs ! k)) = Queued
      \<and> list_all (\<lambda>r. status (h r) \<noteq> Queued) (take (k - c) (drop c xs)))"

definition none_queued_from :: "heap \<Rightarrow> ref list \<Rightarrow> nat \<Rightarrow> bool" where
  "none_queued_from h xs c = list_all (\<lambda>r. status (h r) \<noteq> Queued) (drop c xs)"

text \<open>The scan index holds exactly the URLs of the items in the array.\<close>

definition scanIndex_exact :: "FetchQueue \<Rightarrow> heap \<Rightarrow> bool" where
  "scanIndex_exact q h = (scanIndex q = (\<lambda>r. url (h r)) ` set (items q))"

text \<open>The URL is in the queue: some item of the array has it.\<close>

definition url_queued :: "FetchQueue \<Rightarrow> heap \<Rightarrow> string \<Rightarrow> bool" where
  "url_queued q h u = list_ex (\<lambda>r. url (h r) = u) (items q)"

text \<open>
  An item of the test server at port 3000, in the shape \<open>processURL\<close> gives it, for a
  path, a \<open>fetched\<close> flag and a status.
\<close>

definition test_item :: "string \<Rightarrow> bool \<Rightarrow> status \<Rightarrow> QueueItem" where
  "test_item p f st =
     \<lparr> item_id = None, url = ''http://127.0.0.1:3000'' @ p, protocol = ''http'',
       host = ''127.0.0.1'', port = 3000, path = p, uriPath = p, depth = 1,
       referrer = ''http://127.0.0.1:3000/'', fetched = f, stateData = empty_stateData,
       status = st \<rparr>"

text \<open>
  Three stores of test items: two items fresh from \<open>processURL\<close>; the objects parsed from
  a frozen queue whose first item is downloaded and whose second is queued; and a store
  with a queued item at reference 0 next to the parsed objects at references 1 and 2.
\<close>

definition created_store :: heap where
  "created_store =
     (\<lambda>r. test_item ''/'' False Created)(1 := test_item ''/stage2'' False Created)"

definition thawed_store :: heap where
  "thawed_store =
     (\<lambda>r. test_item ''/'' True Downloaded)(1 := test_item ''/stage2'' False Queued)"

definition occupied_store :: heap where
  "occupied_store =
     (\<lambda>r. test_item ''/'' False Queued)
       (1 := test_item ''/stage2'' True Downloaded, 2 := test_item ''/stage/3'' False Queued)"

text \<open>
  The same store once the object at reference 0 has been added to a new queue, that
  queue, and the queue after the frozen queue of the objects 1 and 2 has been defrosted
  into it. The object at reference 3 is a second item for the URL of the object at
  reference 0.
\<close>

definition queued_store :: heap where
  "queued_store =
     occupied_store(0 := (test_item ''/'' False Queued)\<lparr> item_id := Some 0 \<rparr>)"

definition occupied_queue :: FetchQueue where
  "occupied_queue =
     \<lparr> items = [0], oldestUnfetchedIndex = 0, scanIndex = {''http://127.0.0.1:3000/''} \<rparr>"

definition refilled_queue :: FetchQueue where
  "refilled_queue =
     \<lparr> items = [0, 1, 2], oldestUnfetchedIndex = 1,
       scanIndex = {''http://127.0.0.1:3000/stage2'', ''http://127.0.0.1:3000/stage/3''} \<rparr>"

text \<open>
  For the statistics: the values of a field over the fetched items of the queue, in queue
  order, \<open>undefined\<close> read as \<open>NaN\<close>; and the finite ones among them.
\<close>

definition fetched_values :: "FetchQueue \<Rightarrow> heap \<Rightarrow> string \<Rightarrow> jsnum list" where
  "fetched_values q h nm =
     map (\<lambda>r. to_number (statistic nm (stateData (h r))))
       (filter (\<lambda>r. fetched (h r)) (items q))"

definition finite_values :: "FetchQueue \<Rightarrow> heap \<Rightarrow> string \<Rightarrow> rat list" where
  "finite_values q h nm = map finite_value (filter isFinite (fetched_values q h nm))"

text \<open>
  The aggregates as the specification words them: the maximum, the minimum and the mean of
  the finite values, and 0, 0 and \<open>NaN\<close> when there are none.
\<close>

definition spec_max :: "rat list \<Rightarrow> jsnum" where
  "spec_max vs = (if vs = [] then Fin 0 else Fin (Max (set vs)))"

definition spec_min :: "rat list \<Rightarrow> jsnum" where
  "spec_min vs = (if vs = [] then Fin 0 else Fin (Min (set vs)))"

definition spec_avg :: "rat list \<Rightarrow> jsnum" where
  "spec_avg vs = (if vs = [] then NaN else Fin (sum_list vs / of_nat (length vs)))"

text \<open>
  The mean in the arithmetic of doubles: the values are added one by one, from 0 and in
  their order, each sum rounded, and a finite sum is divided by the number of values. And
  the double nearest to an exact result.
\<close>

definition float_sum :: "rat list \<Rightarrow> jsnum" where
  "float_sum vs = foldl (\<lambda>s v. jadd s (Fin v)) (Fin 0) vs"

definition float_mean :: "rat list \<Rightarrow> jsnum" where
  "float_mean vs =
     (case float_sum vs of
        Fin s \<Rightarrow> if vs = [] then NaN else to_double (s / of_nat (length vs))
      | other \<Rightarrow> other)"

fun nearest_double :: "jsnum \<Rightarrow> jsnum" where
  "nearest_double (Fin x) = to_double x"
| "nearest_double other = other"

text \<open>
  Stores for the statistics: one item whose response declared a \<open>Content-Length\<close> of so
  many digits that \<open>parseInt\<close> gave \<open>Infinity\<close>, which is above every limit, so that
  \<open>handleResponse\<close> set \<open>fetched\<close> on it; three fetched items with content lengths 68, 14
  and 37 beside one that is not fetched; and two fetched items whose content length is
  \<open>2^1023\<close>, a double whose decimal form has 308 digits.
\<close>

definition endless_length_store :: heap where
  "endless_length_store =
     (\<lambda>r. (test_item ''/'' True Spooled)
              \<lparr> stateData := empty_stateData\<lparr> contentLength := Some PosInf \<rparr> \<rparr>)"

definition lengths_store :: heap where
  "lengths_store =
     (\<lambda>r. (test_item ''/'' False Queued))
       (0 := (test_item ''/a'' True Downloaded)
               \<lparr> stateData := empty_stateData\<lparr> contentLength := Some (Fin 68) \<rparr> \<rparr>,
        1 := (test_item ''/b'' True Downloaded)
               \<lparr> stateData := empty_stateData\<lparr> contentLength := Some (Fin 14) \<rparr> \<rparr>,
        3 := (test_item ''/c'' True Downloaded)
               \<lparr> stateData := empty_stateData\<lparr> contentLength := Some (Fin 37) \<rparr> \<rparr>)"

definition huge_lengths_store :: heap where
  "huge_lengths_store =
     (\<lambda>r. (test_item ''/'' True Spooled)
              \<lparr> stateData := empty_stateData\<lparr> contentLength := Some (Fin (2 ^ 1023)) \<rparr> \<rparr>)"

text \<open>Queues over these stores: the array of references; the other two fields play no part.\<close>

definition lengths_queue :: FetchQueue where
  "lengths_queue = \<lparr> items = [0, 1, 2, 3], oldestUnfetchedIndex = 0, scanIndex = {} \<rparr>"

definition unfetched_queue :: FetchQueue where
  "unfetched_queue = \<lparr> items = [2], oldestUnfetchedIndex = 0, scanIndex = {} \<rparr>"

definition endless_length_queue :: FetchQueue where
  "endless_length_queue =
     \<lparr> items = [0], oldestUnfetchedIndex = 0, scanIndex = {''http://127.0.0.1:3000/''} \<rparr>"

definition huge_lengths_queue :: FetchQueue where
  "huge_lengths_queue = \<lparr> items = [0, 1], oldestUnfetchedIndex = 0, scanIndex = {} \<rparr>"

section \<open>Cookies (cookies.ts)\<close>

record Cookie =
  name :: string
  "value" :: string
  expires :: jsnum
  path :: string
  domain :: string
  httponly :: bool

datatype cookie_error = NameRequired | StringRequired

text \<open>
  The \<open>expires\<close> argument of the constructor is \<open>string | number\<close> with default \<open>-1\<close>;
  an omitted argument is \<open>undefined\<close> and takes the default.
\<close>

datatype expires_arg = ExpOmitted | ExpString string | ExpNumber jsnum

text \<open>Truthiness of the argument after the default has been applied.\<close>

fun expires_truthy :: "expires_arg \<Rightarrow> bool" where
  "expires_truthy ExpOmitted = True"
| "expires_truthy (ExpString s) = (s \<noteq> [])"
| "expires_truthy (ExpNumber n) = num_truthy n"

text \<open>
  The constructor. \<open>dateParse s\<close> stands for \<open>new Date(s).getTime()\<close> of the runtime.
  Omitted optional arguments are \<open>None\<close> and take the defaults of the signature.
\<close>

definition new_Cookie ::
  "(string \<Rightarrow> jsnum) \<Rightarrow> string \<Rightarrow> string option \<Rightarrow> expires_arg \<Rightarrow> string option \<Rightarrow>
   string option \<Rightarrow> bool option \<Rightarrow> cookie_error + Cookie" where
  "new_Cookie dateParse nm val ex pth dmn ho =
     (if nm = [] then Inl NameRequired
      else
        let e = (if expires_truthy ex
                 then (case ex of
                         ExpOmitted \<Rightarrow> Fin (- 1)
                       | ExpNumber n \<Rightarrow> n
                       | ExpString s \<Rightarrow> dateParse s)
                 else Fin (- 1))
        in Inr \<lparr> name = nm,
                 value = (case val of None \<Rightarrow> [] | Some v \<Rightarrow> v),
                 expires = e,
                 path = (case pth of None \<Rightarrow> ''/'' | Some p \<Rightarrow> p),
                 domain = (case dmn of None \<Rightarrow> ''*'' | Some d \<Rightarrow> d),
                 httponly = (case ho of None \<Rightarrow> False | Some b \<Rightarrow> b) \<rparr>)"

text \<open>\<open>isExpired\<close>, with the value of \<open>Date.now()\<close> as an argument.\<close>

definition isExpired :: "Cookie \<Rightarrow> jsnum \<Rightarrow> bool" where
  "isExpired c now = (if jlt (expires c) (Fin 0) then False else jlt (expires c) now)"

text \<open>
  \<open>matchDomain\<close>: both strings are reversed and the reversed stored domain is tested with
  \<open>startsWith\<close> against the reversed candidate.
\<close>

definition startsWith :: "string \<Rightarrow> string \<Rightarrow> bool" where
  "startsWith s p = (take (length p) s = p)"

definition matchDomain :: "Cookie \<Rightarrow> string \<Rightarrow> bool" where
  "matchDomain c d =
     (if domain c = ''*'' then True
      else
        let reverseDomain = rev (domain c);
            reverseDomainComp = rev d
        in startsWith reverseDomain reverseDomainComp)"

text \<open>\<open>matchPath\<close>.\<close>

definition matchPath :: "Cookie \<Rightarrow> string \<Rightarrow> bool" where
  "matchPath c p = (if path c = [] then True else startsWith p (path c))"

subsection \<open>Set-Cookie strings\<close>

text \<open>
  A string is a list of characters with codes below 256. The class \<open>\s\<close> of a regular
  expression holds, of these, tab, line feed, vertical tab, form feed, carriage return,
  space and the no-break space.
\<close>

definition js_space :: "char \<Rightarrow> bool" where
  "js_space c = (c \<in> set [CHR 0x09, CHR 0x0A, CHR 0x0B, CHR 0x0C, CHR 0x0D, CHR '' '', CHR 0xA0])"

text \<open>Lower case of the letters A to Z, and the class \<open>[a-z0-9]\<close>.\<close>

definition lower_char :: "char \<Rightarrow> char" where
  "lower_char c =
     (case map_of (zip ''ABCDEFGHIJKLMNOPQRSTUVWXYZ'' ''abcdefghijklmnopqrstuvwxyz'') c of
        Some l \<Rightarrow> l
      | None \<Rightarrow> c)"

definition lower_alnum :: "char \<Rightarrow> bool" where
  "lower_alnum c = (c \<in> set ''abcdefghijklmnopqrstuvwxyz0123456789'')"

text \<open>
  \<open>str.replace(/^\s*set-cookie\s*:\s*/i, "")\<close>: white space, the word in any case, white
  space, a colon, white space, all at the start of the string; a string that does not
  start so is left as it is.
\<close>

definition strip_header :: "string \<Rightarrow> string" where
  "strip_header str =
     (let s1 = dropWhile js_space str
      in if map lower_char (take 10 s1) = ''set-cookie''
         then (case dropWhile js_space (drop 10 s1) of
                 [] \<Rightarrow> str
               | c # s2 \<Rightarrow> if c = CHR '':'' then dropWhile js_space s2 else str)
         else str)"

text \<open>
  \<open>str.split(/\s*;\s*/)\<close>: the leftmost match starts at the white space that runs up to
  the first semicolon and ends after the white space that follows it. So the piece before
  the semicolon loses its trailing white space, and the splitting goes on behind the white
  space after the semicolon. A string without a semicolon is a single piece.
\<close>

definition rstrip :: "string \<Rightarrow> string" where
  "rstrip s = rev (dropWhile js_space (rev s))"

function split_semicolons :: "string \<Rightarrow> string list" where
  "split_semicolons s =
     (if CHR '';'' \<in> set s
      then rstrip (takeWhile (\<lambda>c. c \<noteq> CHR '';'') s)
           # split_semicolons (dropWhile js_space (tl (dropWhile (\<lambda>c. c \<noteq> CHR '';'') s)))
      else [s])"
  by pat_completeness auto
termination
proof (relation "measure length")
  show "wf (measure length)" by simp
next
  fix s :: string
  assume a: "CHR '';'' \<in> set s"
  let ?r = "dropWhile (\<lambda>c. c \<noteq> CHR '';'') s"
  from a have "?r \<noteq> []" by simp
  then have "length (tl ?r) < length ?r" by (cases ?r) simp_all
  moreover have "length ?r \<le> length s" by (rule length_dropWhile_le)
  moreover have "length (dropWhile js_space (tl ?r)) \<le> length (tl ?r)"
    by (rule length_dropWhile_le)
  ultimately show "(dropWhile js_space (tl ?r), s) \<in> measure length" by simp
qed

declare split_semicolons.simps [simp del]

text \<open>
  \<open>parseKeyVal\<close>: the text before the first \<open>=\<close>, and the text after it (the other pieces
  of the split on \<open>=\<close>, joined with \<open>=\<close> again).
\<close>

definition parseKeyVal :: "string \<Rightarrow> string \<times> string" where
  "parseKeyVal input =
     (takeWhile (\<lambda>c. c \<noteq> CHR ''='') input, drop 1 (dropWhile (\<lambda>c. c \<noteq> CHR ''='') input))"

text \<open>The key of an attribute: lower case, everything outside \<open>[a-z0-9]\<close> removed.\<close>

definition attribute_key :: "string \<Rightarrow> string" where
  "attribute_key k = filter lower_alnum (map lower_char k)"

text \<open>The filter on the attribute pieces: something is left when white space is removed.\<close>

definition not_blank :: "string \<Rightarrow> bool" where
  "not_blank input = (filter (\<lambda>c. \<not> js_space c) input \<noteq> [])"

text \<open>
  \<open>keyValParts\<close> is an object used as a dictionary; it starts with \<open>name\<close> and \<open>value\<close> and
  each attribute is stored under its key, a later one over an earlier one.
\<close>

definition store_attribute :: "(string \<rightharpoonup> string) \<Rightarrow> string \<Rightarrow> (string \<rightharpoonup> string)" where
  "store_attribute keyValParts input =
     (let keyval = parseKeyVal input
      in keyValParts(attribute_key (fst keyval) \<mapsto> snd keyval))"

definition lookup_or_empty :: "(string \<rightharpoonup> string) \<Rightarrow> string \<Rightarrow> string" where
  "lookup_or_empty m k = (case m k of None \<Rightarrow> [] | Some v \<Rightarrow> v)"

text \<open>
  \<open>Cookie.fromString\<close>. The third argument of the constructor is
  \<open>keyValParts.expires || keyValParts.expiry\<close>.
\<close>

definition fromString :: "(string \<Rightarrow> jsnum) \<Rightarrow> string \<Rightarrow> cookie_error + Cookie" where
  "fromString dateParse str =
     (if str = [] then Inl StringRequired
      else
        let parts = split_semicolons (strip_header str);
            nameval = parseKeyVal (hd parts);
            keyValParts =
              foldl store_attribute
                [''name'' \<mapsto> fst nameval, ''value'' \<mapsto> snd nameval]
                (filter not_blank (tl parts));
            expiresArg =
              (case keyValParts ''expires'' of
                 Some (c # cs) \<Rightarrow> ExpString (c # cs)
               | _ \<Rightarrow> (case keyValParts ''expiry'' of
                          None \<Rightarrow> ExpOmitted
                        | Some e \<Rightarrow> ExpString e))
        in new_Cookie dateParse
             (lookup_or_empty keyValParts ''name'')
             (Some (lookup_or_empty keyValParts ''value''))
             expiresArg
             (keyValParts ''path'')
             (keyValParts ''domain'')
             (Some (keyValParts ''httponly'' \<noteq> None)))"

text \<open>\<open>toOutboundString\<close> and \<open>toString\<close>; \<open>toUTCString\<close> is the date formatting of the runtime.\<close>

definition toOutboundString :: "Cookie \<Rightarrow> string" where
  "toOutboundString c = name c @ ''='' @ value c"

definition toString :: "(jsnum \<Rightarrow> string) \<Rightarrow> Cookie \<Rightarrow> bool \<Rightarrow> string" where
  "toString toUTCString c includeHeader =
     (if includeHeader then ''Set-Cookie: '' else [])
     @ toOutboundString c @ ''; ''
     @ (if jgt (expires c) (Fin 0) then ''Expires='' @ toUTCString (expires c) @ ''; '' else [])
     @ (if path c \<noteq> [] then ''Path='' @ path c @ ''; '' else [])
     @ (if domain c \<noteq> [] then ''Domain='' @ domain c @ ''; '' else [])
     @ (if httponly c then ''Httponly; '' else [])"

text \<open>
  Text that a piece of a Set-Cookie string can carry unchanged: no semicolon in it and no
  white space at its end.
\<close>

definition plain :: "string \<Rightarrow> bool" where
  "plain s = (CHR '';'' \<notin> set s \<and> (s = [] \<or> \<not> js_space (last s)))"

text \<open>
  The two date functions of the runtime at the one time that the examples use: one second
  after the epoch.
\<close>

definition epoch_toUTCString :: "jsnum \<Rightarrow> string" where
  "epoch_toUTCString t =
     (if t = Fin 1000 then ''Thu, 01 Jan 1970 00:00:01 GMT'' else ''Invalid Date'')"

definition epoch_dateParse :: "string \<Rightarrow> jsnum" where
  "epoch_dateParse s = (if s = ''Thu, 01 Jan 1970 00:00:01 GMT'' then Fin 1000 else NaN)"

text \<open>Two cookies: one with every attribute, one with an empty path.\<close>

definition full_cookie :: Cookie where
  "full_cookie =
     \<lparr> name = ''sid'', value = ''a=1'', expires = Fin 1000, path = ''/app'',
       domain = ''.example.com'', httponly = True \<rparr>"

definition pathless_cookie :: Cookie where
  "pathless_cookie =
     \<lparr> name = ''sid'', value = ''1'', expires = Fin (- 1), path = [],
       domain = ''example.com'', httponly = False \<rparr>"

section \<open>The crawler (crawler.ts): request options\<close>

text \<open>String concatenation with a number writes the number in decimal.\<close>

definition digit_char :: "nat \<Rightarrow> char" where
  "digit_char d = ''0123456789'' ! d"

fun number_to_string :: "nat \<Rightarrow> string" where
  "number_to_string n =
     (if n < 10 then [digit_char n]
      else number_to_string (n div 10) @ [digit_char (n mod 10)])"

declare number_to_string.simps [simp del]

text \<open>
  The value of the \<open>Host\<close> entry in the header object that \<open>getRequestOptions\<close> builds.
  The three constants keep the names they have in the source. (Entries of
  \<open>customHeaders\<close> are copied into the header object afterwards.)
\<close>

definition isStandardHTTPPort :: "QueueItem \<Rightarrow> bool" where
  "isStandardHTTPPort queueItem = (protocol queueItem = ''http'' \<and> port queueItem \<noteq> 80)"

definition isStandardHTTPSPort :: "QueueItem \<Rightarrow> bool" where
  "isStandardHTTPSPort queueItem = (protocol queueItem = ''https'' \<and> port queueItem \<noteq> 443)"

definition isStandardPort :: "QueueItem \<Rightarrow> bool" where
  "isStandardPort queueItem = (isStandardHTTPPort queueItem \<or> isStandardHTTPSPort queueItem)"

definition hostHeader :: "QueueItem \<Rightarrow> string" where
  "hostHeader queueItem =
     host queueItem @
       (if port queueItem \<noteq> 0 \<and> isStandardPort queueItem
        then '':'' @ number_to_string (port queueItem)
        else [])"

text \<open>
  An item as \<open>processURL\<close> builds it from \<open>feed://example.com:8080/news.xml\<close>: the scheme
  \<open>feed\<close> is among the \<open>allowedProtocols\<close>, and the request for such an item goes out over
  HTTP to port 8080.
\<close>

definition feed_item :: QueueItem where
  "feed_item =
     \<lparr> item_id = None, url = ''feed://example.com:8080/news.xml'', protocol = ''feed'',
       host = ''example.com'', port = 8080, path = ''/news.xml'', uriPath = ''/news.xml'',
       depth = 1, referrer = ''http://example.com/'', fetched = False,
       stateData = empty_stateData, status = Created \<rparr>"

section \<open>The crawler: wait holds\<close>









section \<open>The crawler: conditions\<close>



















section \<open>The crawler: state, surroundings and events\<close>





section \<open>The crawler: queueURL\<close>





text \<open>The \<open>code\<close> property of the error that \<open>add\<close> calls back with.\<close>

fun error_code :: "queue_error \<Rightarrow> string option" where
  "error_code Duplicate = Some ''DUPLICATE''"
| "error_code _ = None"




















section \<open>The crawler: fetching an item\<close>











subsection \<open>handleResponse\<close>























section \<open>Properties of cookies\<close>

lemma startsWith_prefix: "startsWith s p = prefix p s"
  unfolding startsWith_def prefix_def
  by (metis append_eq_conv_conj append_take_drop_id)

text \<open>
  \<open>matchDomain\<close> in terms of the two strings: the reversed stored domain starts with the
  reversed candidate when the candidate is a suffix of the stored domain.
\<close>

lemma matchDomain_reversed_prefix:
  "matchDomain c d = (domain c = ''*'' \<or> suffix d (domain c))"
  by (simp add: matchDomain_def startsWith_prefix suffix_to_prefix Let_def)

text \<open>
  C5 (as the code has it). The match succeeds when the stored domain is the wildcard. It
  succeeds when the candidate equals the stored domain, and when the candidate is the
  stored domain without its leading dot: the jar's own test asks for the cookies of
  \<open>nytimes.com\<close> and expects the ones stored under \<open>.nytimes.com\<close>. It fails when the
  stored domain is not the wildcard and neither of the two domains is a suffix of the
  other.
\<close>

theorem matchDomain_wildcard_equal_dotted:
  "(domain c = ''*'' \<longrightarrow> matchDomain c d)
   \<and> (domain c = d \<longrightarrow> matchDomain c d)
   \<and> (domain c = CHR ''.'' # d \<longrightarrow> matchDomain c d)
   \<and> (domain c \<noteq> ''*'' \<and> \<not> suffix (domain c) d \<and> \<not> suffix d (domain c)
        \<longrightarrow> \<not> matchDomain c d)"
  by (auto simp: matchDomain_reversed_prefix suffix_Cons)

theorem matchDomain_wildcard_equal_dotted_witness:
  "matchDomain (full_cookie\<lparr> domain := ''*'' \<rparr>) ''www.yahoo.com''
   \<and> matchDomain (full_cookie\<lparr> domain := ''test.com'' \<rparr>) ''test.com''
   \<and> matchDomain (full_cookie\<lparr> domain := ''.google.com'' \<rparr>) ''google.com''
   \<and> \<not> matchDomain (full_cookie\<lparr> domain := ''test.com'' \<rparr>) ''google.com''"
proof -
  let ?w = "full_cookie\<lparr> domain := ''*'' \<rparr>"
  let ?t = "full_cookie\<lparr> domain := ''test.com'' \<rparr>"
  let ?g = "full_cookie\<lparr> domain := ''.google.com'' \<rparr>"
  from matchDomain_wildcard_equal_dotted [of ?w "''www.yahoo.com''"]
  have 1: "matchDomain ?w ''www.yahoo.com''" by simp
  from matchDomain_wildcard_equal_dotted [of ?t "''test.com''"]
  have 2: "matchDomain ?t ''test.com''" by simp
  from matchDomain_wildcard_equal_dotted [of ?g "''google.com''"]
  have 3: "matchDomain ?g ''google.com''" by simp
  have s: "\<not> suffix ''test.com'' ''google.com''" "\<not> suffix ''google.com'' ''test.com''"
    by (simp_all add: suffix_def)
  from matchDomain_wildcard_equal_dotted [of ?t "''google.com''"] s
  have 4: "\<not> matchDomain ?t ''google.com''" by simp
  from 1 2 3 4 show ?thesis by blast
qed

text \<open>
  C5, the claim as written fails: the cookie stored under \<open>.nytimes.com\<close> matches the
  candidate \<open>nytimes.com\<close>, as the jar's test expects, although the stored domain is not
  a suffix of the candidate.
\<close>

theorem matchDomain_stored_suffix_counterexample:
  "matchDomain \<lparr> name = ''RMID'', value = ''1'', expires = Fin (- 1), path = ''/'',
                 domain = ''.nytimes.com'', httponly = False \<rparr> ''nytimes.com''
   \<and> \<not> suffix ''.nytimes.com'' ''nytimes.com''
   \<and> ''.nytimes.com'' \<noteq> ''*''"
  by (simp add: matchDomain_def startsWith_def suffix_def)

text \<open>
  C10. Every falsy \<open>expires\<close> argument (the empty string, the number 0, \<open>NaN\<close>) and the
  omitted argument give a cookie whose stored \<open>expires\<close> is \<open>-1\<close>; such a cookie is never
  expired, whatever the clock says; and \<open>isExpired\<close> is true exactly when the stored
  \<open>expires\<close> is at least 0 and strictly below the current time.
\<close>

theorem cookie_falsy_expires_is_session:
  "(new_Cookie dp nm val ex pth dmn ho = Inr c
      \<and> (ex = ExpOmitted \<or> ex = ExpString [] \<or> ex = ExpNumber (Fin 0) \<or> \<not> expires_truthy ex)
     \<longrightarrow> expires c = Fin (- 1) \<and> (\<forall>now. \<not> isExpired c now))
   \<and> (isExpired c' now = (jge (expires c') (Fin 0) \<and> jlt (expires c') now))"
proof -
  have a: "isExpired c' now = (jge (expires c') (Fin 0) \<and> jlt (expires c') now)"
    by (cases "expires c'"; cases now) (auto simp: isExpired_def jge_def)
  have b: "expires c = Fin (- 1) \<Longrightarrow> \<not> isExpired c t" for t
    by (simp add: isExpired_def)
  have c: "new_Cookie dp nm val ex pth dmn ho = Inr c \<Longrightarrow> \<not> expires_truthy ex
             \<Longrightarrow> expires c = Fin (- 1)"
    by (auto simp: new_Cookie_def Let_def split: if_splits)
  have d: "new_Cookie dp nm val ExpOmitted pth dmn ho = Inr c \<Longrightarrow> expires c = Fin (- 1)"
    by (auto simp: new_Cookie_def Let_def split: if_splits)
  have e: "\<not> expires_truthy (ExpString [])" "\<not> expires_truthy (ExpNumber (Fin 0))"
    by (simp_all add: num_truthy_def)
  show ?thesis using a b c d e by metis
qed

theorem cookie_falsy_expires_is_session_witness:
  "new_Cookie (\<lambda>_. NaN) ''sid'' (Some ''v'') (ExpNumber (Fin 0)) None None None
     = Inr \<lparr> name = ''sid'', value = ''v'', expires = Fin (- 1), path = ''/'',
             domain = ''*'', httponly = False \<rparr>
   \<and> \<not> isExpired \<lparr> name = ''sid'', value = ''v'', expires = Fin (- 1), path = ''/'',
                    domain = ''*'', httponly = False \<rparr> (Fin 1700000000000)"
proof -
  let ?c = "\<lparr> name = ''sid'', value = ''v'', expires = Fin (- 1), path = ''/'',
              domain = ''*'', httponly = False \<rparr>"
  have h: "new_Cookie (\<lambda>_. NaN) ''sid'' (Some ''v'') (ExpNumber (Fin 0)) None None None = Inr ?c"
    by (simp add: new_Cookie_def num_truthy_def)
  from cookie_falsy_expires_is_session
         [of "\<lambda>_. NaN" "''sid''" "Some ''v''" "ExpNumber (Fin 0)" None None None ?c ?c "Fin 0"] h
  have "\<forall>now. \<not> isExpired ?c now" by simp
  then show ?thesis using h by blast
qed

section \<open>The Host header\<close>

text \<open>
  C8 (as the code has it). For every queue item whose scheme is http or https the \<open>Host\<close>
  header is the host followed by \<open>:port\<close> exactly when the port is truthy (not 0) and
  differs from the default port of the scheme, 80 for http and 443 for https; when the
  port is the default of the scheme, or 0, the header is the bare host.
\<close>

theorem hostHeader_port_suffix:
  "(protocol queueItem = ''http'' \<longrightarrow>
      hostHeader queueItem =
        host queueItem @
          (if port queueItem \<noteq> 0 \<and> port queueItem \<noteq> 80
           then '':'' @ number_to_string (port queueItem) else []))
   \<and> (protocol queueItem = ''https'' \<longrightarrow>
      hostHeader queueItem =
        host queueItem @
          (if port queueItem \<noteq> 0 \<and> port queueItem \<noteq> 443
           then '':'' @ number_to_string (port queueItem) else []))"
  by (simp add: hostHeader_def isStandardPort_def isStandardHTTPPort_def
        isStandardHTTPSPort_def)

theorem hostHeader_port_suffix_witness:
  "protocol (test_item ''/'' False Created) = ''http''
   \<and> hostHeader (test_item ''/'' False Created) = ''127.0.0.1:3000''
   \<and> protocol ((test_item ''/'' False Created)\<lparr> protocol := ''https'', port := 443 \<rparr>) = ''https''
   \<and> hostHeader ((test_item ''/'' False Created)\<lparr> protocol := ''https'', port := 443 \<rparr>)
       = ''127.0.0.1''"
proof -
  let ?a = "test_item ''/'' False Created"
  let ?b = "(test_item ''/'' False Created)\<lparr> protocol := ''https'', port := 443 \<rparr>"
  have p: "protocol ?a = ''http''" "protocol ?b = ''https''"
    by (simp_all add: test_item_def)
  have n: "number_to_string 3000 = ''3000''"
    by (simp add: number_to_string.simps digit_char_def)
  from hostHeader_port_suffix [of ?a] p(1) n
  have a: "hostHeader ?a = ''127.0.0.1:3000''" by (simp add: test_item_def)
  from hostHeader_port_suffix [of ?b] p(2)
  have b: "hostHeader ?b = ''127.0.0.1''" by (simp add: test_item_def)
  from p a b show ?thesis by blast
qed

text \<open>
  C8, the claim as written fails for an item of another scheme. The port of the feed item
  is 8080: truthy, and neither 80 nor 443. Its \<open>Host\<close> header is the bare host.
\<close>

theorem hostHeader_feed_counterexample:
  "port feed_item = 8080 \<and> protocol feed_item = ''feed''
   \<and> hostHeader feed_item = ''example.com''"
  by (simp add: feed_item_def hostHeader_def isStandardPort_def isStandardHTTPPort_def
        isStandardHTTPSPort_def)

section \<open>Wait holds\<close>




section \<open>Adding to the queue\<close>

lemma add_success_props:
  "add q h r force = (Inr x, q', h') \<Longrightarrow>
     x = r \<and> item_id (h' r) = Some (length (items q)) \<and> status (h' r) = Queued
     \<and> items q' = items q @ [r] \<and> exists_url q' (url (h' r)) \<and> items q' ! (length (items q)) = r"
  by (auto simp: add_def addToQueue_def exists_url_def split: if_splits)

lemma addToQueue_scanIndex_exact:
  assumes "scanIndex_exact q h"
  shows "scanIndex_exact (fst (addToQueue q h r)) (snd (addToQueue q h r))"
proof -
  let ?h = "h(r := (h r)\<lparr> item_id := Some (length (items q)), status := Queued \<rparr>)"
  have u: "url (?h x) = url (h x)" for x by simp
  have "(\<lambda>x. url (?h x)) = (\<lambda>x. url (h x))" using u by blast
  then have "(\<lambda>x. url (?h x)) ` set (items q @ [r]) = insert (url (h r)) ((\<lambda>x. url (h x)) ` set (items q))"
    by (simp only:) auto
  with assms show ?thesis
    by (simp add: addToQueue_def scanIndex_exact_def del: fun_upd_apply)
qed

lemma add_keeps_scanIndex_exact:
  "scanIndex_exact q h \<Longrightarrow> add q h r force = (res, q', h') \<Longrightarrow> scanIndex_exact q' h'"
  using addToQueue_scanIndex_exact [of q h r]
  by (auto simp: add_def split: if_splits)

text \<open>In a queue whose scan index is exact, \<open>exists\<close> answers whether the URL is queued.\<close>

lemma exists_url_queued:
  "scanIndex_exact q h \<Longrightarrow> exists_url q u = url_queued q h u"
  by (auto simp: scanIndex_exact_def exists_url_def url_queued_def list_ex_iff)

text \<open>
  C2 (as the code has it). A new queue holds in its scan index exactly the URLs of its
  items, and \<open>add\<close> keeps it so. In every such queue state \<open>add(item, force, cb)\<close> does
  this: when some item of the queue has the URL of the item and \<open>force\<close> is false, the
  callback receives the error with code \<open>DUPLICATE\<close>; when some item of the queue has the
  URL, \<open>force\<close> is true and this very object is already in the array, the callback
  receives the other error, whose code is not \<open>DUPLICATE\<close>; in both cases nothing changes.
  In every other case the URL is recorded in the scan index, the object gets \<open>id\<close> equal to
  the length of the queue before the insertion and status \<open>queued\<close>, its reference is
  appended, and the callback receives \<open>(null, item)\<close>.
\<close>

theorem add_outcomes:
  "scanIndex_exact new_FetchQueue h0
   \<and> (scanIndex_exact q h \<longrightarrow>
        add q h r force =
          (if url_queued q h (url (h r)) \<and> \<not> force then (Inl Duplicate, q, h)
           else if url_queued q h (url (h r)) \<and> force \<and> r \<in> set (items q)
             then (Inl AddTwice, q, h)
           else (Inr r,
                 q\<lparr> scanIndex := insert (url (h r)) (scanIndex q), items := items q @ [r] \<rparr>,
                 h(r := (h r)\<lparr> item_id := Some (length (items q)), status := Queued \<rparr>)))
        \<and> scanIndex_exact (fst (snd (add q h r force))) (snd (snd (add q h r force))))
   \<and> error_code Duplicate = Some ''DUPLICATE'' \<and> error_code AddTwice \<noteq> Some ''DUPLICATE''"
proof -
  have n: "scanIndex_exact new_FetchQueue h0"
    by (simp add: scanIndex_exact_def new_FetchQueue_def)
  have a: "add q h r force =
          (if url_queued q h (url (h r)) \<and> \<not> force then (Inl Duplicate, q, h)
           else if url_queued q h (url (h r)) \<and> force \<and> r \<in> set (items q)
             then (Inl AddTwice, q, h)
           else (Inr r,
                 q\<lparr> scanIndex := insert (url (h r)) (scanIndex q), items := items q @ [r] \<rparr>,
                 h(r := (h r)\<lparr> item_id := Some (length (items q)), status := Queued \<rparr>)))"
    if "scanIndex_exact q h"
    using exists_url_queued [OF that, of "url (h r)"] by (simp add: add_def addToQueue_def)
  have k: "scanIndex_exact (fst (snd (add q h r force))) (snd (snd (add q h r force)))"
    if "scanIndex_exact q h"
    using add_keeps_scanIndex_exact [OF that, of r force] by (metis prod.collapse)
  from n a k show ?thesis by simp
qed

theorem add_outcomes_witness:
  "scanIndex_exact new_FetchQueue occupied_store
   \<and> add new_FetchQueue occupied_store 0 False = (Inr 0, occupied_queue, queued_store)
   \<and> scanIndex_exact occupied_queue queued_store
   \<and> add occupied_queue queued_store 3 False = (Inl Duplicate, occupied_queue, queued_store)
   \<and> add occupied_queue queued_store 0 True = (Inl AddTwice, occupied_queue, queued_store)
   \<and> fst (add occupied_queue queued_store 3 True) = Inr 3"
proof -
  note t0 = add_outcomes [of occupied_store new_FetchQueue occupied_store 0 False]
  from t0 have n: "scanIndex_exact new_FetchQueue occupied_store" by simp
  have u0: "\<not> url_queued new_FetchQueue occupied_store (url (occupied_store 0))"
    by (simp add: url_queued_def new_FetchQueue_def)
  from t0 n u0
  have a0: "add new_FetchQueue occupied_store 0 False = (Inr 0, occupied_queue, queued_store)"
    by (simp add: new_FetchQueue_def occupied_queue_def queued_store_def occupied_store_def
          test_item_def)
  from t0 n a0 have e: "scanIndex_exact occupied_queue queued_store" by simp
  have u: "url_queued occupied_queue queued_store (url (queued_store 3))"
          "url_queued occupied_queue queued_store (url (queued_store 0))"
          "0 \<in> set (items occupied_queue)" "3 \<notin> set (items occupied_queue)"
    by (simp_all add: url_queued_def occupied_queue_def queued_store_def occupied_store_def
          test_item_def)
  from add_outcomes [of occupied_store occupied_queue queued_store 3 False] e u
  have a1: "add occupied_queue queued_store 3 False = (Inl Duplicate, occupied_queue, queued_store)"
    by simp
  from add_outcomes [of occupied_store occupied_queue queued_store 0 True] e u
  have a2: "add occupied_queue queued_store 0 True = (Inl AddTwice, occupied_queue, queued_store)"
    by simp
  from add_outcomes [of occupied_store occupied_queue queued_store 3 True] e u
  have a3: "fst (add occupied_queue queued_store 3 True) = Inr 3"
    by simp
  from n a0 e a1 a2 a3 show ?thesis by blast
qed

text \<open>
  C2, the claim as written fails in a queue state that the methods of the queue reach.
  The object 0 is added to a new queue; a frozen queue of two other items is defrosted
  into that queue, which replaces the scan index by the URLs of the two; then the object
  3, a second item for the URL of the object 0, is added with \<open>force\<close> false. The URL is
  in the queue, and the callback receives \<open>(null, item)\<close>.
\<close>

theorem add_duplicate_counterexample:
  "add new_FetchQueue occupied_store 0 False = (Inr 0, occupied_queue, queued_store)
   \<and> defrost occupied_queue queued_store (Parsed [1, 2]) = Inr refilled_queue
   \<and> url (queued_store 3) = url (queued_store 0)
   \<and> url_queued refilled_queue queued_store (url (queued_store 3))
   \<and> fst (add refilled_queue queued_store 3 False) = Inr 3"
  by (auto simp add: add_def addToQueue_def exists_url_def defrost_def url_queued_def
        new_FetchQueue_def occupied_queue_def queued_store_def occupied_store_def
        refilled_queue_def test_item_def Let_def)

section \<open>The oldest-unfetched cursor\<close>

lemma oldest_loop_Some:
  "oldest_loop h xs i = Some k \<Longrightarrow>
     i \<le> k \<and> k < length xs \<and> status (h (xs ! k)) = Queued
     \<and> (\<forall>j. i \<le> j \<and> j < k \<longrightarrow> status (h (xs ! j)) \<noteq> Queued)"
proof (induction h xs i rule: oldest_loop.induct)
  case (1 h xs i)
  show ?case
  proof (cases "i < length xs \<and> status (h (xs ! i)) \<noteq> Queued")
    case True
    with "1.prems" have "oldest_loop h xs (Suc i) = Some k"
      by (simp add: oldest_loop.simps [of h xs i])
    with "1.IH" True have *: "Suc i \<le> k \<and> k < length xs \<and> status (h (xs ! k)) = Queued
     \<and> (\<forall>j. Suc i \<le> j \<and> j < k \<longrightarrow> status (h (xs ! j)) \<noteq> Queued)" by simp
    have "\<And>j. i \<le> j \<Longrightarrow> j < k \<Longrightarrow> status (h (xs ! j)) \<noteq> Queued"
    proof -
      fix j assume "i \<le> j" "j < k"
      then consider "j = i" | "Suc i \<le> j" by linarith
      then show "status (h (xs ! j)) \<noteq> Queued" using True * \<open>j < k\<close> by cases auto
    qed
    with * show ?thesis by auto
  next
    case False
    with "1.prems" show ?thesis
      by (auto simp: oldest_loop.simps [of h xs i] split: if_splits)
  qed
qed

lemma oldest_loop_None:
  "oldest_loop h xs i = None \<Longrightarrow> i \<le> j \<Longrightarrow> j < length xs \<Longrightarrow> status (h (xs ! j)) \<noteq> Queued"
proof (induction h xs i rule: oldest_loop.induct)
  case (1 h xs i)
  from "1.prems" have a: "i < length xs" "status (h (xs ! i)) \<noteq> Queued" "oldest_loop h xs (Suc i) = None"
    by (auto simp: oldest_loop.simps [of h xs i] split: if_splits)
  show ?case
  proof (cases "j = i")
    case True with a show ?thesis by simp
  next
    case False
    with "1.prems" have "Suc i \<le> j" by simp
    with "1.IH" a "1.prems" show ?thesis by simp
  qed
qed


lemma take_drop_all_iff:
  "k \<le> length xs \<Longrightarrow>
     list_all P (take (k - c) (drop c xs)) = (\<forall>j. c \<le> j \<and> j < k \<longrightarrow> P (xs ! j))"
proof -
  assume k: "k \<le> length xs"
  have len: "length (take (k - c) (drop c xs)) = k - c" using k by simp
  have "list_all P (take (k - c) (drop c xs)) = (\<forall>n < k - c. P (xs ! (c + n)))"
    using k by (simp add: list_all_length)
  also have "\<dots> = (\<forall>j. c \<le> j \<and> j < k \<longrightarrow> P (xs ! j))"
  proof
    assume a: "\<forall>n < k - c. P (xs ! (c + n))"
    show "\<forall>j. c \<le> j \<and> j < k \<longrightarrow> P (xs ! j)"
    proof (intro allI impI)
      fix j assume "c \<le> j \<and> j < k"
      then have "j - c < k - c" "c + (j - c) = j" by auto
      with a show "P (xs ! j)" by metis
    qed
  next
    assume a: "\<forall>j. c \<le> j \<and> j < k \<longrightarrow> P (xs ! j)"
    show "\<forall>n < k - c. P (xs ! (c + n))"
    proof (intro allI impI)
      fix n assume "n < k - c"
      then have "c \<le> c + n \<and> c + n < k" by auto
      with a show "P (xs ! (c + n))" by blast
    qed
  qed
  finally show ?thesis .
qed

lemma oldest_loop_first:
  "oldest_loop h xs c = Some k \<Longrightarrow> first_queued_from h xs c k"
  using oldest_loop_Some [of h xs c k] take_drop_all_iff [of k xs "\<lambda>r. status (h r) \<noteq> Queued" c]
  by (simp add: first_queued_from_def)

lemma oldest_loop_none:
  "oldest_loop h xs c = None \<Longrightarrow> none_queued_from h xs c"
proof -
  assume a: "oldest_loop h xs c = None"
  have "list_all (\<lambda>r. status (h r) \<noteq> Queued) (take (length xs - c) (drop c xs))"
    using oldest_loop_None [OF a] take_drop_all_iff [of "length xs" xs "\<lambda>r. status (h r) \<noteq> Queued" c]
    by simp
  then show ?thesis by (simp add: none_queued_from_def)
qed

lemma found_indices_append: "found_indices (xs @ ys) = found_indices xs @ found_indices ys"
  by (induction xs rule: found_indices.induct) simp_all

lemma failures_append: "failures (xs @ ys) = failures xs @ failures ys"
  by (induction xs rule: failures.induct) simp_all

lemma exec_op_cursor:
  assumes "0 \<le> oldestUnfetchedIndex q" and "exec_op opr (q, h) = (out, q', h')"
  shows "oldestUnfetchedIndex q \<le> oldestUnfetchedIndex q'
         \<and> failures out = []
         \<and> (found_indices out = [] \<or> found_indices out = [nat (oldestUnfetchedIndex q')])"
proof (cases opr)
  case (Add r force)
  with assms show ?thesis by (auto simp: add_def addToQueue_def split: if_splits)
next
  case (Update i u)
  with assms show ?thesis by auto
next
  case OldestUnfetchedItem
  show ?thesis
  proof (cases "oldest_loop h (items q) (nat (oldestUnfetchedIndex q))")
    case None
    with assms OldestUnfetchedItem show ?thesis by (auto simp: oldestUnfetchedItem_def)
  next
    case (Some k)
    from oldest_loop_Some [OF Some] have "nat (oldestUnfetchedIndex q) \<le> k" by simp
    with Some assms OldestUnfetchedItem show ?thesis by (auto simp: oldestUnfetchedItem_def)
  qed
next
  case Freeze
  with assms show ?thesis by auto
next
  case (Mutate f)
  with assms show ?thesis by auto
qed

lemma run_ops_cursor:
  "0 \<le> oldestUnfetchedIndex q \<Longrightarrow> run_ops ops (q, h) = (outs, q', h') \<Longrightarrow>
     oldestUnfetchedIndex q \<le> oldestUnfetchedIndex q'
     \<and> failures outs = []
     \<and> sorted (found_indices outs)
     \<and> (\<forall>i \<in> set (found_indices outs). nat (oldestUnfetchedIndex q) \<le> i)"
proof (induction ops arbitrary: q h outs q' h')
  case Nil
  then show ?case by simp
next
  case (Cons opr ops)
  obtain out q1 h1 where e: "exec_op opr (q, h) = (out, q1, h1)" by (metis prod_cases3)
  obtain outs1 q2 h2 where r: "run_ops ops (q1, h1) = (outs1, q2, h2)" by (metis prod_cases3)
  from Cons.prems(2) e r have eq: "outs = out @ outs1" "q' = q2" "h' = h2" by auto
  note s1 = exec_op_cursor [OF Cons.prems(1) e]
  then have c1: "0 \<le> oldestUnfetchedIndex q1" using Cons.prems(1) by linarith
  note s2 = Cons.IH [OF c1 r]
  have le: "nat (oldestUnfetchedIndex q) \<le> nat (oldestUnfetchedIndex q1)" using s1 by linarith
  have "sorted (found_indices out @ found_indices outs1)"
    using s1 s2 by (auto simp: sorted_append)
  moreover have "\<forall>i \<in> set (found_indices out @ found_indices outs1). nat (oldestUnfetchedIndex q) \<le> i"
    using s1 s2 le by auto
  ultimately show ?case using s1 s2 eq
    by (simp add: found_indices_append failures_append)
qed

lemma oldestUnfetchedItem_spec:
  assumes "0 \<le> oldestUnfetchedIndex q"
  shows "(case oldestUnfetchedItem q h of
            (Inr (Some r), q') \<Rightarrow>
               first_queued_from h (items q) (nat (oldestUnfetchedIndex q)) (nat (oldestUnfetchedIndex q'))
               \<and> r = items q ! nat (oldestUnfetchedIndex q')
               \<and> items q' = items q
          | (Inr None, q') \<Rightarrow> none_queued_from h (items q) (nat (oldestUnfetchedIndex q)) \<and> q' = q
          | (Inl e, q') \<Rightarrow> False)"
proof (cases "oldest_loop h (items q) (nat (oldestUnfetchedIndex q))")
  case None
  with assms oldest_loop_none [OF None] show ?thesis by (simp add: oldestUnfetchedItem_def)
next
  case (Some k)
  with assms oldest_loop_first [OF Some] show ?thesis by (simp add: oldestUnfetchedItem_def)
qed

lemma defrost_loop_items:
  "items (defrost_loop h rs n q) = items q @ rs"
  by (induction rs arbitrary: n q) (simp_all add: Let_def)

lemma defrost_loop_scanIndex:
  "scanIndex (defrost_loop h rs n q) = scanIndex q \<union> (\<lambda>r. url (h r)) ` set rs"
  by (induction rs arbitrary: n q) (auto simp: Let_def)

lemma defrost_loop_cursor_low:
  "oldestUnfetchedIndex q \<le> int n \<Longrightarrow>
     oldestUnfetchedIndex (defrost_loop h rs n q) = oldestUnfetchedIndex q"
  by (induction rs arbitrary: n q) (simp_all add: Let_def)

lemma defrost_loop_cursor_none:
  "list_all (\<lambda>r. status (h r) \<noteq> Queued) rs \<Longrightarrow>
     oldestUnfetchedIndex (defrost_loop h rs n q) = oldestUnfetchedIndex q"
  by (induction rs arbitrary: n q) (simp_all add: Let_def)

lemma defrost_loop_cursor_first:
  "list_all (\<lambda>r. status (h r) \<noteq> Queued) pre \<Longrightarrow> status (h r) = Queued \<Longrightarrow>
     oldestUnfetchedIndex (defrost_loop h (pre @ r # post) n q)
       = min (oldestUnfetchedIndex q) (int (n + length pre))"
proof (induction pre arbitrary: n q)
  case Nil
  then show ?case by (simp add: Let_def defrost_loop_cursor_low min_def)
next
  case (Cons a pre)
  then show ?case by (simp add: Let_def)
qed

lemma defrost_empty_queue:
  assumes "items q0 = []" and "dq \<noteq> []"
  shows "\<exists>q1. defrost q0 h (Parsed dq) = Inr q1 \<and> items q1 = dq
          \<and> (if list_ex (\<lambda>r. status (h r) = Queued) dq
              then 0 \<le> oldestUnfetchedIndex q1
                   \<and> first_queued_from h dq 0 (nat (oldestUnfetchedIndex q1))
              else oldestUnfetchedIndex q1 = int (length dq) - 1)"
proof (cases "list_ex (\<lambda>r. status (h r) = Queued) dq")
  case False
  then have "list_all (\<lambda>r. status (h r) \<noteq> Queued) dq"
    by (simp add: list_all_iff list_ex_iff)
  with False assms show ?thesis
    by (simp add: defrost_def defrost_loop_items defrost_loop_cursor_none)
next
  case True
  then obtain pre r post where d: "dq = pre @ r # post" "status (h r) = Queued"
      "\<forall>y \<in> set pre. status (h y) \<noteq> Queued"
    using split_list_first_prop [of dq "\<lambda>r. status (h r) = Queued"] by (auto simp: list_ex_iff)
  then have pre: "list_all (\<lambda>r. status (h r) \<noteq> Queued) pre" by (simp add: list_all_iff)
  let ?q1 = "defrost_loop h dq 0 (q0\<lparr> oldestUnfetchedIndex := int (length dq) - 1, scanIndex := {} \<rparr>)"
  have c: "oldestUnfetchedIndex ?q1 = int (length pre)"
    using defrost_loop_cursor_first [OF pre d(2), of post 0] d(1) by (simp add: min_def)
  have "first_queued_from h dq 0 (length pre)"
    using d pre by (simp add: first_queued_from_def nth_append)
  with c True assms show ?thesis
    by (simp add: defrost_def defrost_loop_items)
qed

text \<open>
  \<open>defrost\<close> of an empty array leaves the cursor at \<open>-1\<close>, whatever the queue holds, and
  the next call of \<open>oldestUnfetchedItem\<close> throws.
\<close>

lemma defrost_empty_array:
  "\<exists>q'. defrost q h (Parsed []) = Inr q' \<and> oldestUnfetchedIndex q' = - 1
        \<and> fst (oldestUnfetchedItem q' h') = Inl TypeErrorThrown"
  by (simp add: defrost_def oldestUnfetchedItem_def)

text \<open>
  C7 (as the code has it). Start from a queue whose cursor is not negative, as a new queue
  is, and run any sequence of \<open>add\<close>, \<open>update\<close>, \<open>oldestUnfetchedItem\<close>, \<open>freeze\<close> and
  writes to the items from outside. Then the indices at which the calls of
  \<open>oldestUnfetchedItem\<close> found their items never go down, none of the calls fails, and a
  further call returns the item at the first index at or after the cursor whose status is
  \<open>queued\<close> and moves the cursor there, or returns \<open>(null, null)\<close> when there is no such
  index. \<open>defrost\<close> of a non-empty array into a queue that holds no items sets the cursor to
  the smallest index whose status is \<open>queued\<close> when there is one, and to the last index
  otherwise.
\<close>

theorem oldest_unfetched_cursor:
  assumes "0 \<le> oldestUnfetchedIndex q0"
      and "run_ops ops (q0, h0) = (outs, q, h)"
      and "items qe = []" and "dq \<noteq> []"
  shows "sorted (found_indices outs) \<and> failures outs = []
     \<and> (case oldestUnfetchedItem q h of
           (Inr (Some r), q') \<Rightarrow>
              first_queued_from h (items q) (nat (oldestUnfetchedIndex q))
                (nat (oldestUnfetchedIndex q'))
              \<and> r = items q ! nat (oldestUnfetchedIndex q')
              \<and> items q' = items q
         | (Inr None, q') \<Rightarrow>
              none_queued_from h (items q) (nat (oldestUnfetchedIndex q)) \<and> q' = q
         | (Inl e, q') \<Rightarrow> False)
     \<and> (\<exists>q1. defrost qe he (Parsed dq) = Inr q1 \<and> items q1 = dq
          \<and> (if list_ex (\<lambda>r. status (he r) = Queued) dq
              then 0 \<le> oldestUnfetchedIndex q1
                   \<and> first_queued_from he dq 0 (nat (oldestUnfetchedIndex q1))
              else oldestUnfetchedIndex q1 = int (length dq) - 1))"
proof -
  note r = run_ops_cursor [OF assms(1,2)]
  then have "0 \<le> oldestUnfetchedIndex q" using assms(1) by linarith
  from oldestUnfetchedItem_spec [OF this, of h] r defrost_empty_queue [OF assms(3,4), of he]
  show ?thesis by blast
qed

theorem oldest_unfetched_cursor_witness:
  "0 \<le> oldestUnfetchedIndex new_FetchQueue
   \<and> fst (run_ops [Add 0 False, Add 1 False, OldestUnfetchedItem,
                 Update (Some 0) (no_update\<lparr> u_status := Some Spooled \<rparr>),
                 OldestUnfetchedItem]
          (new_FetchQueue, created_store))
     = [Found 0 0, Found 1 1]
   \<and> sorted (found_indices [Found 0 0, Found 1 1])
   \<and> items new_FetchQueue = []
   \<and> defrost new_FetchQueue thawed_store (Parsed [0, 1])
      = Inr \<lparr> items = [0, 1], oldestUnfetchedIndex = 1,
              scanIndex = {''http://127.0.0.1:3000/'', ''http://127.0.0.1:3000/stage2''} \<rparr>"
proof -
  let ?ops = "[Add 0 False, Add 1 False, OldestUnfetchedItem,
                 Update (Some 0) (no_update\<lparr> u_status := Some Spooled \<rparr>),
                 OldestUnfetchedItem]"
  let ?res = "run_ops ?ops (new_FetchQueue, created_store)"
  have c0: "0 \<le> oldestUnfetchedIndex new_FetchQueue" by (simp add: new_FetchQueue_def)
  have e: "items new_FetchQueue = []" by (simp add: new_FetchQueue_def)
  have ne: "[0, 1] \<noteq> ([] :: ref list)" by simp
  have run: "run_ops ?ops (new_FetchQueue, created_store)
               = (fst ?res, fst (snd ?res), snd (snd ?res))"
    by simp
  have outs: "fst ?res = [Found 0 0, Found 1 1]"
    by (simp add: new_FetchQueue_def add_def addToQueue_def exists_url_def test_item_def
          created_store_def oldestUnfetchedItem_def oldest_loop.simps update_def
          deepAssign_def no_update_def)
  have d: "defrost new_FetchQueue thawed_store (Parsed [0, 1])
      = Inr \<lparr> items = [0, 1], oldestUnfetchedIndex = 1,
              scanIndex = {''http://127.0.0.1:3000/'', ''http://127.0.0.1:3000/stage2''} \<rparr>"
    by (auto simp add: defrost_def new_FetchQueue_def test_item_def thawed_store_def Let_def)
  from oldest_unfetched_cursor [OF c0 run e ne, of thawed_store] outs
  have "sorted (found_indices [Found 0 0, Found 1 1])" by simp
  with c0 outs e d show ?thesis by blast
qed

text \<open>
  C7, the claim as written fails in its last part. A queue holds one queued item; a frozen
  queue of a downloaded item and a queued item is defrosted into it. The three items are
  now at indices 0, 1 and 2, the smallest index whose status is \<open>queued\<close> is 0, and the
  cursor is 1, the index that the queued item had in the file; the item at index 1 is not
  queued.
\<close>

theorem defrost_cursor_counterexample:
  "defrost \<lparr> items = [0], oldestUnfetchedIndex = 0, scanIndex = {''http://127.0.0.1:3000/''} \<rparr>
     occupied_store (Parsed [1, 2])
   = Inr \<lparr> items = [0, 1, 2], oldestUnfetchedIndex = 1,
           scanIndex = {''http://127.0.0.1:3000/stage2'', ''http://127.0.0.1:3000/stage/3''} \<rparr>
   \<and> first_queued_from occupied_store [0, 1, 2] 0 0
   \<and> \<not> first_queued_from occupied_store [0, 1, 2] 0 1"
  by (auto simp add: defrost_def test_item_def occupied_store_def first_queued_from_def Let_def)

section \<open>Statistics of the queue\<close>

subsection \<open>The arithmetic of doubles\<close>

lemma bit_length_bounds:
  "0 < n \<Longrightarrow> 2 ^ (bit_length n - 1) \<le> n \<and> n < 2 ^ bit_length n"
proof (induction n rule: bit_length.induct)
  case (1 n)
  show ?case
  proof (cases "n = 1")
    case True
    then show ?thesis by (simp add: bit_length.simps)
  next
    case False
    with "1.prems" have h: "0 < n div 2" by simp
    have n: "\<not> n \<le> 0" using "1.prems" by simp
    note ih = "1.IH" [OF n h]
    have b: "bit_length n = Suc (bit_length (n div 2))" using n by (simp add: bit_length.simps)
    have p: "0 < bit_length (n div 2)" using h by (simp add: bit_length.simps)
    then have s: "2 ^ bit_length (n div 2) = (2::int) * 2 ^ (bit_length (n div 2) - 1)"
      by (cases "bit_length (n div 2)") simp_all
    from ih have lo: "2 * 2 ^ (bit_length (n div 2) - 1) \<le> n" by linarith
    from ih have hi: "n < 2 * 2 ^ bit_length (n div 2)" by linarith
    from lo hi s show ?thesis unfolding b by simp
  qed
qed

lemma round_half_even_of_int: "round_half_even (of_int z) = z"
  by (simp add: round_half_even_def)

lemma to_double_of_nat:
  assumes "n < 2 ^ 53"
  shows "to_double (of_nat n) = Fin (of_nat n)"
proof (cases "n = 0")
  case True
  then show ?thesis by (simp add: to_double_def)
next
  case False
  let ?b = "bit_length (int n)"
  from False have pos: "0 < int n" by simp
  note bb = bit_length_bounds [OF pos]
  have b1: "1 \<le> ?b" using pos by (simp add: bit_length.simps)
  have lt53: "(2::int) ^ (?b - 1) < 2 ^ 53"
  proof -
    have "int n < 2 ^ 53" using assms by (metis of_nat_less_iff of_nat_numeral of_nat_power)
    with bb show ?thesis by linarith
  qed
  have b2: "?b - 1 < 53" by (rule power_less_imp_less_exp [OF _ lt53]) simp
  have fl: "floor_log2 \<bar>of_nat n\<bar> = int ?b - 1"
    using False by (simp add: floor_log2_def)
  have e: "max (int ?b - 1) (- 1022) = int ?b - 1" using b1 by simp
  have u: "two_to (int ?b - 1 - 52) = 1 / 2 ^ (53 - ?b)"
  proof (cases "?b = 53")
    case True
    then show ?thesis by (simp add: two_to_def)
  next
    case False
    with b2 have "?b < 53" by simp
    then have "nat (- (int ?b - 1 - 52)) = 53 - ?b" by simp
    with \<open>?b < 53\<close> show ?thesis by (simp add: two_to_def)
  qed
  have q: "\<bar>of_nat n :: rat\<bar> / (1 / 2 ^ (53 - ?b)) = of_int (int n * 2 ^ (53 - ?b))"
    by simp
  have m: "of_int (round_half_even (\<bar>of_nat n :: rat\<bar> / (1 / 2 ^ (53 - ?b)))) * (1 / 2 ^ (53 - ?b))
             = (of_nat n :: rat)"
    unfolding q round_half_even_of_int by simp
  have lt: "(of_nat n :: rat) < two_to 1024"
  proof -
    have "(of_nat n :: rat) < 2 ^ 53" using assms
      by (metis of_nat_less_iff of_nat_numeral of_nat_power)
    also have "\<dots> \<le> 2 ^ 1024" by (rule power_increasing) simp_all
    finally show ?thesis by (simp add: two_to_def)
  qed
  have nz: "(of_nat n :: rat) \<noteq> 0" "0 < (of_nat n :: rat)" using False by simp_all
  show ?thesis
    unfolding to_double_def Let_def fl e u m using nz lt by simp
qed

lemma float_sum_nats_aux:
  "a + sum_list ns < 2 ^ 53 \<Longrightarrow>
     foldl (\<lambda>s v. jadd s (Fin v)) (Fin (of_nat a)) (map of_nat ns) = Fin (of_nat (a + sum_list ns))"
proof (induction ns arbitrary: a)
  case Nil
  then show ?case by simp
next
  case (Cons n ns)
  from Cons.prems have lt: "a + n < 2 ^ 53" and rest: "(a + n) + sum_list ns < 2 ^ 53"
    by simp_all
  have "jadd (Fin (of_nat a)) (Fin (of_nat n)) = Fin (of_nat (a + n))"
    using to_double_of_nat [OF lt] by simp
  with Cons.IH [OF rest] show ?case by (simp add: add.assoc)
qed

lemma float_sum_nats:
  "sum_list ns < 2 ^ 53 \<Longrightarrow> float_sum (map of_nat ns) = Fin (of_nat (sum_list ns))"
  using float_sum_nats_aux [of 0 ns] by (simp add: float_sum_def)

lemma round_half_even_ge: "\<lfloor>x\<rfloor> \<le> round_half_even x"
  by (simp add: round_half_even_def Let_def)

lemma to_double_overflow:
  assumes "2 ^ 1024 \<le> x"
  shows "to_double x = PosInf"
proof -
  let ?n = "\<lfloor>x\<rfloor>"
  let ?b = "bit_length ?n"
  have x1: "1 \<le> x" "0 < x" "x \<noteq> 0" "\<bar>x\<bar> = x"
    using assms order_trans [of 1 "(2::rat) ^ 1024" x] by simp_all
  have n_big: "(2::int) ^ 1024 \<le> ?n"
  proof -
    have "of_int ((2::int) ^ 1024) \<le> x" using assms by simp
    then show ?thesis by (simp only: le_floor_iff)
  qed
  then have pos: "0 < ?n" by (smt (verit) zero_less_power)
  note bb = bit_length_bounds [OF pos]
  from bb n_big have "(2::int) ^ 1024 < 2 ^ ?b" by linarith
  then have big: "1024 < ?b" by (rule power_less_imp_less_exp [rotated]) simp
  have fl: "floor_log2 x = int ?b - 1" using x1 by (simp add: floor_log2_def)
  have e: "max (int ?b - 1) (- 1022) = int ?b - 1" using big by simp
  have u: "two_to (int ?b - 1 - 52) = 2 ^ (?b - 53)"
  proof -
    have "nat (int ?b - 1 - 52) = ?b - 53" using big by simp
    then show ?thesis using big by (simp add: two_to_def)
  qed
  have xlow: "(2::rat) ^ (?b - 1) \<le> x"
  proof -
    have "(of_int ((2::int) ^ (?b - 1)) :: rat) \<le> of_int ?n" using bb by (simp only: of_int_le_iff)
    also have "\<dots> \<le> x" by simp
    finally show ?thesis by simp
  qed
  have split: "(2::rat) ^ (?b - 1) = 2 ^ 52 * 2 ^ (?b - 53)"
  proof -
    have "?b - 1 = 52 + (?b - 53)" using big by simp
    then show ?thesis by (simp only: power_add)
  qed
  have q: "(2::rat) ^ 52 \<le> x / 2 ^ (?b - 53)"
    using xlow unfolding split by (simp add: pos_le_divide_eq)
  have "(2::int) ^ 52 \<le> \<lfloor>x / 2 ^ (?b - 53)\<rfloor>"
  proof -
    have "of_int ((2::int) ^ 52) \<le> x / 2 ^ (?b - 53)" using q by simp
    then show ?thesis by (simp only: le_floor_iff)
  qed
  with round_half_even_ge [of "x / 2 ^ (?b - 53)"]
  have r: "(2::int) ^ 52 \<le> round_half_even (x / 2 ^ (?b - 53))" by linarith
  have "(2::rat) ^ 52 * 2 ^ (?b - 53) \<le> of_int (round_half_even (x / 2 ^ (?b - 53))) * 2 ^ (?b - 53)"
  proof (rule mult_right_mono)
    have "(of_int ((2::int) ^ 52) :: rat) \<le> of_int (round_half_even (x / 2 ^ (?b - 53)))"
      using r by (simp only: of_int_le_iff)
    then show "(2::rat) ^ 52 \<le> of_int (round_half_even (x / 2 ^ (?b - 53)))" by simp
  qed simp
  then have m1: "(2::rat) ^ (?b - 1) \<le> of_int (round_half_even (x / 2 ^ (?b - 53))) * 2 ^ (?b - 53)"
    unfolding split .
  have "(2::rat) ^ 1024 \<le> 2 ^ (?b - 1)" by (rule power_increasing) (use big in simp_all)
  with m1 have m: "two_to 1024 \<le> of_int (round_half_even (x / 2 ^ (?b - 53))) * 2 ^ (?b - 53)"
    by (simp add: two_to_def)
  show ?thesis
    unfolding to_double_def Let_def x1(4) fl e u using x1(2,3) m by simp
qed

lemma bit_length_power2: "bit_length (2 ^ k) = Suc k"
proof (induction k)
  case 0
  show ?case by (simp add: bit_length.simps)
next
  case (Suc k)
  have "\<not> (2::int) * 2 ^ k \<le> 0" by (simp add: mult_le_0_iff)
  then have "bit_length (2 * 2 ^ k) = Suc (bit_length ((2 * 2 ^ k) div 2))"
    by (subst bit_length.simps) simp
  with Suc show ?case by simp
qed

lemma two_to_scaled: "two_to (int k - 52) * 2 ^ 52 = 2 ^ k"
proof (cases "52 \<le> k")
  case True
  then obtain j where j: "k = j + 52" by (metis le_add_diff_inverse2)
  have t: "two_to (int (j + 52) - 52) = 2 ^ j" by (simp add: two_to_def)
  show ?thesis unfolding j t by (simp only: power_add)
next
  case False
  then obtain j where j: "52 = k + j" and j0: "0 < j"
    by (metis add_diff_inverse_nat less_imp_add_positive not_le)
  have "int k - 52 = - int j" using j by linarith
  then have t: "two_to (int k - 52) = 1 / 2 ^ j" using j0 by (simp add: two_to_def)
  have p: "(2::rat) ^ 52 = 2 ^ k * 2 ^ j" by (simp only: j power_add)
  show ?thesis unfolding t p by simp
qed

lemma to_double_power2:
  assumes "k \<le> 1023"
  shows "to_double (2 ^ k) = Fin (2 ^ k)"
proof -
  have fl: "\<lfloor>(2::rat) ^ k\<rfloor> = 2 ^ k"
    using floor_of_int [of "2 ^ k", where ?'a = rat] by simp
  have l: "floor_log2 (2 ^ k) = int k"
    by (simp add: floor_log2_def fl bit_length_power2)
  have e: "max (int k) (- 1022) = int k" by simp
  have u: "two_to (int k - 52) \<noteq> 0" by (simp add: two_to_def)
  have q: "(2::rat) ^ k / two_to (int k - 52) = of_int (2 ^ 52)"
    using two_to_scaled [of k] u by (simp add: field_simps)
  have m: "of_int (round_half_even ((2::rat) ^ k / two_to (int k - 52))) * two_to (int k - 52)
             = 2 ^ k"
    unfolding q round_half_even_of_int using two_to_scaled [of k] by (simp add: mult.commute)
  have lt: "\<not> two_to 1024 \<le> (2::rat) ^ k"
  proof -
    have "(2::rat) ^ k < 2 ^ 1024" by (rule power_strict_increasing) (use assms in simp_all)
    then show ?thesis by (simp add: two_to_def)
  qed
  have a: "\<bar>(2::rat) ^ k\<bar> = 2 ^ k" by simp
  show ?thesis
    unfolding to_double_def Let_def a l e m using lt by simp
qed

lemma overflow_example:
  "jadd (jadd (Fin 0) (Fin (2 ^ 1023))) (Fin (2 ^ 1023)) = PosInf"
proof -
  have 1: "jadd (Fin 0) (Fin (2 ^ 1023)) = Fin (2 ^ 1023)"
    using to_double_power2 [of 1023] by simp
  have 2: "jadd (Fin (2 ^ 1023)) (Fin (2 ^ 1023)) = PosInf"
    using to_double_overflow [of "2 ^ 1023 + 2 ^ 1023"] by simp
  show ?thesis unfolding 1 2 ..
qed

lemma floor_numeral_div:
  "\<lfloor>numeral a / numeral b :: rat\<rfloor> = numeral a div numeral b"
  using floor_divide_of_int_eq [of "numeral a" "numeral b", where ?'a = rat] by simp

subsection \<open>The three aggregates\<close>

lemma jlt_irrefl: "\<not> jlt a a"
  by (cases a) simp_all

lemma jlt_NaN_right: "\<not> jlt a NaN"
  by (cases a) simp_all

lemma jge_trans:
  "a \<noteq> NaN \<Longrightarrow> b \<noteq> NaN \<Longrightarrow> c \<noteq> NaN \<Longrightarrow> \<not> jlt a b \<Longrightarrow> \<not> jlt b c \<Longrightarrow> \<not> jlt a c"
  by (cases a; cases b; cases c) auto

lemma jlt_not_NaN: "jlt a b \<Longrightarrow> a \<noteq> NaN \<and> b \<noteq> NaN"
  by (cases a; cases b) auto

lemma jlt_asym: "jlt a b \<Longrightarrow> \<not> jlt b a"
  by (cases a; cases b) auto

lemma max_fold:
  "m0 \<noteq> NaN \<Longrightarrow> m = foldl (max_body h nm) m0 xs \<Longrightarrow>
     m \<noteq> NaN \<and> \<not> jlt m m0
     \<and> (m = m0 \<or> m \<in> set (map (\<lambda>r. to_number (statistic nm (stateData (h r)))) (filter (\<lambda>r. fetched (h r)) xs)))
     \<and> (\<forall>v \<in> set (map (\<lambda>r. to_number (statistic nm (stateData (h r)))) (filter (\<lambda>r. fetched (h r)) xs)). \<not> jlt m v)"
proof (induction xs arbitrary: m0)
  case Nil
  then show ?case by (simp add: jlt_irrefl)
next
  case (Cons r xs)
  let ?v = "to_number (statistic nm (stateData (h r)))"
  let ?m1 = "max_body h nm m0 r"
  have m1: "?m1 \<noteq> NaN" "\<not> jlt ?m1 m0" "?m1 = m0 \<or> (fetched (h r) \<and> ?m1 = ?v)"
       "fetched (h r) \<Longrightarrow> \<not> jlt ?m1 ?v"
    using Cons.prems(1) jlt_not_NaN [of m0 ?v] jlt_asym [of m0 ?v] jlt_irrefl [of ?v] jlt_irrefl [of m0]
    by (auto simp: max_body_def jgt_def)
  from Cons.prems(2) have m: "m = foldl (max_body h nm) ?m1 xs" by simp
  note ih = Cons.IH [OF m1(1) m]
  have a: "\<not> jlt m m0" using jge_trans [of m ?m1 m0] ih m1 Cons.prems(1) by blast
  have b: "fetched (h r) \<Longrightarrow> \<not> jlt m ?v"
  proof (cases "?v = NaN")
    case True then show ?thesis by (simp add: jlt_NaN_right)
  next
    case False
    assume "fetched (h r)"
    then show ?thesis using jge_trans [of m ?m1 ?v] ih m1 False by blast
  qed
  show ?case using ih m1 a b by auto
qed

lemma min_fold:
  "m0 \<noteq> NaN \<Longrightarrow> m = foldl (min_body h nm) m0 xs \<Longrightarrow>
     m \<noteq> NaN \<and> \<not> jlt m0 m
     \<and> (m = m0 \<or> m \<in> set (map (\<lambda>r. to_number (statistic nm (stateData (h r)))) (filter (\<lambda>r. fetched (h r)) xs)))
     \<and> (\<forall>v \<in> set (map (\<lambda>r. to_number (statistic nm (stateData (h r)))) (filter (\<lambda>r. fetched (h r)) xs)). \<not> jlt v m)"
proof (induction xs arbitrary: m0)
  case Nil
  then show ?case by (simp add: jlt_irrefl)
next
  case (Cons r xs)
  let ?v = "to_number (statistic nm (stateData (h r)))"
  let ?m1 = "min_body h nm m0 r"
  have m1: "?m1 \<noteq> NaN" "\<not> jlt m0 ?m1" "?m1 = m0 \<or> (fetched (h r) \<and> ?m1 = ?v)"
       "fetched (h r) \<Longrightarrow> \<not> jlt ?v ?m1"
    using Cons.prems(1) jlt_not_NaN [of ?v m0] jlt_asym [of ?v m0] jlt_irrefl [of ?v] jlt_irrefl [of m0]
    by (auto simp: min_body_def)
  from Cons.prems(2) have m: "m = foldl (min_body h nm) ?m1 xs" by simp
  note ih = Cons.IH [OF m1(1) m]
  have a: "\<not> jlt m0 m" using jge_trans [of m0 ?m1 m] ih m1 Cons.prems(1) by blast
  have b: "fetched (h r) \<Longrightarrow> \<not> jlt ?v m"
  proof (cases "?v = NaN")
    case True then show ?thesis by simp
  next
    case False
    assume "fetched (h r)"
    then show ?thesis using jge_trans [of ?v ?m1 m] ih m1 False by blast
  qed
  show ?case using ih m1 a b by auto
qed

lemma jadd_finite: "isFinite v \<Longrightarrow> jadd s (Fin (finite_value v)) = jadd s v"
  by (cases v) simp_all

lemma avg_fold:
  "foldl (avg_body h nm) (s0, c0) xs =
     (foldl (\<lambda>s v. jadd s (Fin v)) s0
        (map finite_value (filter isFinite (map (\<lambda>r. to_number (statistic nm (stateData (h r)))) (filter (\<lambda>r. fetched (h r)) xs)))),
      c0 + length (filter isFinite (map (\<lambda>r. to_number (statistic nm (stateData (h r)))) (filter (\<lambda>r. fetched (h r)) xs))))"
  by (induction xs arbitrary: s0 c0) (simp_all add: avg_body_def jadd_finite)

lemma queue_max_char:
  assumes "nm \<in> allowedStatistics"
  shows "\<exists>m. queue_max q h nm = Inr m \<and> m \<noteq> NaN \<and> \<not> jlt m (Fin 0)
           \<and> (m = Fin 0 \<or> m \<in> set (fetched_values q h nm))
           \<and> (\<forall>v \<in> set (fetched_values q h nm). \<not> jlt m v)"
  using assms max_fold [of "Fin 0" "foldl (max_body h nm) (Fin 0) (items q)" h nm "items q"]
  by (simp add: queue_max_def fetched_values_def)

lemma queue_min_char:
  assumes "nm \<in> allowedStatistics"
  shows "\<exists>m. queue_min q h nm = Inr m
           \<and> (if \<forall>v \<in> set (fetched_values q h nm). v = NaN \<or> v = PosInf
               then m = Fin 0
               else m \<in> set (fetched_values q h nm) \<and> m \<noteq> NaN
                    \<and> (\<forall>v \<in> set (fetched_values q h nm). \<not> jlt v m))"
proof -
  let ?m = "foldl (min_body h nm) PosInf (items q)"
  let ?vals = "fetched_values q h nm"
  have f: "?m \<noteq> NaN" "?m = PosInf \<or> ?m \<in> set ?vals" "\<forall>v \<in> set ?vals. \<not> jlt v ?m"
    using min_fold [of PosInf ?m h nm "items q"] by (simp_all add: fetched_values_def)
  have r: "queue_min q h nm = Inr (if ?m = PosInf then Fin 0 else ?m)"
    using assms by (simp add: queue_min_def Let_def)
  show ?thesis
  proof (cases "\<forall>v \<in> set ?vals. v = NaN \<or> v = PosInf")
    case True
    with f have "?m = PosInf" by auto
    with r True show ?thesis by simp
  next
    case False
    then obtain v where v: "v \<in> set ?vals" "v \<noteq> NaN" "v \<noteq> PosInf" by blast
    have "?m \<noteq> PosInf"
    proof
      assume "?m = PosInf"
      with f(3) v(1) have "\<not> jlt v PosInf" by auto
      with v(2,3) show False by (cases v) auto
    qed
    with r f False show ?thesis by auto
  qed
qed

lemma queue_avg_char:
  assumes "nm \<in> allowedStatistics"
  shows "queue_avg q h nm = Inr (float_mean (finite_values q h nm))"
proof -
  let ?vs = "finite_values q h nm"
  have acc: "foldl (avg_body h nm) (Fin 0, 0) (items q) = (float_sum ?vs, length ?vs)"
    using avg_fold [of h nm "Fin 0" 0 "items q"]
    by (simp add: fetched_values_def finite_values_def float_sum_def)
  show ?thesis
  proof (cases "?vs = []")
    case True
    then show ?thesis
      using assms by (simp add: queue_avg_def acc js_divide_def float_mean_def float_sum_def)
  next
    case False
    then show ?thesis
      using assms
      by (simp add: queue_avg_def acc js_divide_def float_mean_def split: jsnum.splits)
  qed
qed

lemma sum_list_of_nat: "sum_list (map of_nat ns) = (of_nat (sum_list ns) :: rat)"
  by (induction ns) simp_all

lemma queue_avg_nats:
  assumes "nm \<in> allowedStatistics" and "finite_values q h nm = map of_nat ns"
      and "sum_list ns < 2 ^ 53"
  shows "queue_avg q h nm = Inr (nearest_double (spec_avg (finite_values q h nm)))"
proof -
  have "float_mean (map of_nat ns) = nearest_double (spec_avg (map of_nat ns))"
    by (simp add: float_mean_def float_sum_nats [OF assms(3)] spec_avg_def sum_list_of_nat)
  with queue_avg_char [OF assms(1), of q h] assms(2) show ?thesis by simp
qed

lemma finite_values_set:
  "set (finite_values q h nm) = {x. Fin x \<in> set (fetched_values q h nm)}"
proof -
  have k: "isFinite v \<Longrightarrow> Fin (finite_value v) = v" for v
    by (cases v) auto
  show ?thesis
  proof (intro set_eqI iffI)
    fix x assume "x \<in> set (finite_values q h nm)"
    then obtain v where "v \<in> set (fetched_values q h nm)" "isFinite v" "x = finite_value v"
      by (auto simp: finite_values_def)
    with k [of v] show "x \<in> {x. Fin x \<in> set (fetched_values q h nm)}" by simp
  next
    fix x assume "x \<in> {x. Fin x \<in> set (fetched_values q h nm)}"
    then have "Fin x \<in> set (filter isFinite (fetched_values q h nm))" by simp
    then have "finite_value (Fin x) \<in> finite_value ` set (filter isFinite (fetched_values q h nm))"
      by (rule imageI)
    then show "x \<in> set (finite_values q h nm)" by (simp add: finite_values_def)
  qed
qed

lemma queue_max_spec:
  assumes "nm \<in> allowedStatistics"
      and "\<forall>v \<in> set (fetched_values q h nm). v = NaN \<or> (isFinite v \<and> \<not> jlt v (Fin 0))"
  shows "queue_max q h nm = Inr (spec_max (finite_values q h nm))"
proof -
  let ?vals = "fetched_values q h nm" and ?fv = "finite_values q h nm"
  from queue_max_char [OF assms(1), of q h]
  obtain m where m: "queue_max q h nm = Inr m" "m \<noteq> NaN" "\<not> jlt m (Fin 0)"
       "m = Fin 0 \<or> m \<in> set ?vals" "\<forall>v \<in> set ?vals. \<not> jlt m v" by blast
  from m(2,4) assms(2) obtain y where y: "m = Fin y" by (cases m) auto
  have ub: "x \<le> y" if "x \<in> set ?fv" for x
  proof -
    from that have "Fin x \<in> set ?vals" by (simp add: finite_values_set)
    with m(5) y show ?thesis by fastforce
  qed
  have nonneg: "0 \<le> x" if "x \<in> set ?fv" for x
  proof -
    from that have "Fin x \<in> set ?vals" by (simp add: finite_values_set)
    with assms(2) show ?thesis by fastforce
  qed
  show ?thesis
  proof (cases "?fv = []")
    case True
    have "m = Fin 0"
    proof (rule ccontr)
      assume "m \<noteq> Fin 0"
      with m(4) y have "y \<in> set ?fv" by (simp add: finite_values_set)
      with True show False by simp
    qed
    with m(1) True show ?thesis by (simp add: spec_max_def)
  next
    case False
    have "y \<in> set ?fv"
    proof (cases "m \<in> set ?vals")
      case True
      with y show ?thesis by (simp add: finite_values_set)
    next
      case False
      with m(4) y have y0: "y = 0" by simp
      from \<open>?fv \<noteq> []\<close> obtain x where x: "x \<in> set ?fv" by (cases ?fv) auto
      with ub [OF x] nonneg [OF x] y0 show ?thesis by simp
    qed
    then have "Max (set ?fv) = y" using ub by (intro Max_eqI) auto
    with m(1) y False show ?thesis by (simp add: spec_max_def)
  qed
qed

lemma queue_min_spec:
  assumes "nm \<in> allowedStatistics"
      and "\<forall>v \<in> set (fetched_values q h nm). v = NaN \<or> (isFinite v \<and> \<not> jlt v (Fin 0))"
  shows "queue_min q h nm = Inr (spec_min (finite_values q h nm))"
proof -
  let ?vals = "fetched_values q h nm" and ?fv = "finite_values q h nm"
  from queue_min_char [OF assms(1), of q h]
  obtain m where m: "queue_min q h nm = Inr m"
     "if \<forall>v \<in> set ?vals. v = NaN \<or> v = PosInf then m = Fin 0
      else m \<in> set ?vals \<and> m \<noteq> NaN \<and> (\<forall>v \<in> set ?vals. \<not> jlt v m)" by blast
  show ?thesis
  proof (cases "?fv = []")
    case True
    have "\<forall>v \<in> set ?vals. v = NaN \<or> v = PosInf"
    proof
      fix v assume v: "v \<in> set ?vals"
      show "v = NaN \<or> v = PosInf"
      proof (cases v)
        case (Fin x)
        with v have "x \<in> set ?fv" by (simp add: finite_values_set)
        with True show ?thesis by simp
      qed (use assms(2) v in auto)
    qed
    with m True show ?thesis by (simp add: spec_min_def)
  next
    case False
    then obtain x where x: "x \<in> set ?fv" by (cases ?fv) auto
    then have "Fin x \<in> set ?vals" by (simp add: finite_values_set)
    then have "\<not> (\<forall>v \<in> set ?vals. v = NaN \<or> v = PosInf)" by auto
    with m(2) have mm: "m \<in> set ?vals" "m \<noteq> NaN" "\<forall>v \<in> set ?vals. \<not> jlt v m" by simp_all
    have "isFinite m" using mm(1,2) assms(2) by auto
    then obtain y where y: "m = Fin y" by (cases m) auto
    with mm(1) have yin: "y \<in> set ?fv" by (simp add: finite_values_set)
    have lb: "y \<le> z" if "z \<in> set ?fv" for z
    proof -
      from that have "Fin z \<in> set ?vals" by (simp add: finite_values_set)
      with mm(3) y show ?thesis by fastforce
    qed
    have "Min (set ?fv) = y" using yin lb by (intro Min_eqI) auto
    with m(1) y False show ?thesis by (simp add: spec_min_def)
  qed
qed

lemma all_NaN_aggregates:
  assumes "nm \<in> allowedStatistics" and "list_all (\<lambda>v. v = NaN) (fetched_values q h nm)"
  shows "queue_max q h nm = Inr (Fin 0) \<and> queue_min q h nm = Inr (Fin 0)
         \<and> queue_avg q h nm = Inr NaN"
proof -
  from assms(2) have a: "\<forall>v \<in> set (fetched_values q h nm). v = NaN" by (simp add: list_all_iff)
  then have b: "\<forall>v \<in> set (fetched_values q h nm). v = NaN \<or> (isFinite v \<and> \<not> jlt v (Fin 0))"
    by blast
  have "set (finite_values q h nm) = {}" using a by (auto simp: finite_values_set)
  then have e: "finite_values q h nm = []" by simp
  show ?thesis
    using queue_max_spec [OF assms(1) b] queue_min_spec [OF assms(1) b]
      queue_avg_char [OF assms(1), of q h] e
    by (simp add: spec_max_def spec_min_def float_mean_def float_sum_def)
qed

text \<open>
  C4 (as the code has it). A name outside the whitelist is refused by all three methods
  with the "Invalid statistic" error. For a name of the whitelist, over the items with
  \<open>fetched = true\<close>: \<open>avg\<close> is the mean of the finite values of the field in the
  arithmetic of doubles, the values added one by one in queue order and the sum divided by
  their number, \<open>NaN\<close> when there are none; when the finite values are natural numbers
  whose sum is below \<open>2^53\<close>, it is the double nearest to their exact mean. \<open>max\<close> is the
  largest among 0 and the values of the field, so never below 0; \<open>min\<close> is the smallest
  value of the field, and 0 when no value lies below \<open>+Infinity\<close>. In \<open>max\<close> and \<open>min\<close> a
  value that is \<open>undefined\<close> or \<open>NaN\<close> never counts, an infinite one does. When no fetched
  item holds a number other than \<open>NaN\<close>, \<open>max\<close> and \<open>min\<close> yield 0 and \<open>avg\<close> yields
  \<open>NaN\<close>; when every number held is finite and not negative, \<open>max\<close> and \<open>min\<close> are the
  maximum and the minimum of the finite values.
\<close>

theorem statistics_aggregates:
  "(nm \<notin> allowedStatistics \<longrightarrow>
      queue_max q h nm = Inl InvalidStatistic \<and> queue_min q h nm = Inl InvalidStatistic
      \<and> queue_avg q h nm = Inl InvalidStatistic)
   \<and> (nm \<in> allowedStatistics \<longrightarrow>
        queue_avg q h nm = Inr (float_mean (finite_values q h nm))
      \<and> (finite_values q h nm = map of_nat ns \<and> sum_list ns < 2 ^ 53 \<longrightarrow>
             queue_avg q h nm = Inr (nearest_double (spec_avg (finite_values q h nm))))
      \<and> (\<exists>m. queue_max q h nm = Inr m \<and> m \<noteq> NaN \<and> \<not> jlt m (Fin 0)
             \<and> (m = Fin 0 \<or> m \<in> set (fetched_values q h nm))
             \<and> (\<forall>v \<in> set (fetched_values q h nm). \<not> jlt m v))
      \<and> (\<exists>m. queue_min q h nm = Inr m
             \<and> (if \<forall>v \<in> set (fetched_values q h nm). v = NaN \<or> v = PosInf
                 then m = Fin 0
                 else m \<in> set (fetched_values q h nm) \<and> m \<noteq> NaN
                      \<and> (\<forall>v \<in> set (fetched_values q h nm). \<not> jlt v m)))
      \<and> (list_all (\<lambda>v. v = NaN) (fetched_values q h nm) \<longrightarrow>
             queue_max q h nm = Inr (Fin 0) \<and> queue_min q h nm = Inr (Fin 0)
             \<and> queue_avg q h nm = Inr NaN)
      \<and> (list_all (\<lambda>v. v = NaN \<or> (isFinite v \<and> \<not> jlt v (Fin 0))) (fetched_values q h nm) \<longrightarrow>
             queue_max q h nm = Inr (spec_max (finite_values q h nm))
             \<and> queue_min q h nm = Inr (spec_min (finite_values q h nm))))"
proof -
  have inv: "nm \<notin> allowedStatistics \<Longrightarrow>
      queue_max q h nm = Inl InvalidStatistic \<and> queue_min q h nm = Inl InvalidStatistic
      \<and> queue_avg q h nm = Inl InvalidStatistic"
    by (simp add: queue_max_def queue_min_def queue_avg_def)
  have sp: "nm \<in> allowedStatistics \<Longrightarrow>
      list_all (\<lambda>v. v = NaN \<or> (isFinite v \<and> \<not> jlt v (Fin 0))) (fetched_values q h nm) \<Longrightarrow>
      queue_max q h nm = Inr (spec_max (finite_values q h nm))
      \<and> queue_min q h nm = Inr (spec_min (finite_values q h nm))"
    using queue_max_spec [of nm q h] queue_min_spec [of nm q h] by (simp add: list_all_iff)
  show ?thesis
    using inv sp queue_avg_char [of nm q h] queue_avg_nats [of nm q h ns]
      queue_max_char [of nm q h] queue_min_char [of nm q h] all_NaN_aggregates [of nm q h]
    by blast
qed

theorem statistics_aggregates_witness:
  "''code'' \<notin> allowedStatistics
   \<and> queue_max lengths_queue lengths_store ''code'' = Inl InvalidStatistic
   \<and> ''contentLength'' \<in> allowedStatistics
   \<and> queue_max lengths_queue lengths_store ''contentLength'' = Inr (Fin 68)
   \<and> queue_min lengths_queue lengths_store ''contentLength'' = Inr (Fin 14)
   \<and> queue_avg lengths_queue lengths_store ''contentLength''
       = Inr (Fin (5582587038094677 / 140737488355328))
   \<and> queue_avg unfetched_queue lengths_store ''contentLength'' = Inr NaN
   \<and> queue_avg huge_lengths_queue huge_lengths_store ''contentLength'' = Inr PosInf"
proof -
  let ?q = lengths_queue and ?e = unfetched_queue and ?g = huge_lengths_queue
  have n: "''code'' \<notin> allowedStatistics" "''contentLength'' \<in> allowedStatistics"
    by (simp_all add: allowedStatistics_def)
  have fv: "fetched_values ?q lengths_store ''contentLength'' = [Fin 68, Fin 14, Fin 37]"
           "fetched_values ?e lengths_store ''contentLength'' = []"
           "fetched_values ?g huge_lengths_store ''contentLength'' = [Fin (2 ^ 1023), Fin (2 ^ 1023)]"
    by (simp_all add: fetched_values_def lengths_store_def huge_lengths_store_def test_item_def
          statistic_def empty_stateData_def lengths_queue_def unfetched_queue_def
          huge_lengths_queue_def del: power_numeral)
  have fin: "finite_values ?q lengths_store ''contentLength'' = map of_nat [68, 14, 37]"
            "finite_values ?g huge_lengths_store ''contentLength'' = [2 ^ 1023, 2 ^ 1023]"
    unfolding finite_values_def fv by simp_all
  have small: "sum_list [68, 14, 37] < (2::nat) ^ 53" by simp
  have ok: "list_all (\<lambda>v. v = NaN \<or> (isFinite v \<and> \<not> jlt v (Fin 0)))
              (fetched_values ?q lengths_store ''contentLength'')"
           "list_all (\<lambda>v. v = NaN) (fetched_values ?e lengths_store ''contentLength'')"
    unfolding fv by simp_all
  have sm: "spec_max (map of_nat [68, 14, 37]) = Fin 68"
           "spec_min (map of_nat [68, 14, 37]) = Fin 14"
           "spec_avg (map of_nat [68, 14, 37]) = Fin (119 / 3)"
    by (simp_all add: spec_max_def spec_min_def spec_avg_def)
  have rd: "to_double (119 / 3) = Fin (5582587038094677 / 140737488355328)"
    by (simp add: to_double_def floor_log2_def two_to_def round_half_even_def bit_length.simps
          Let_def floor_numeral_div)
  have hm: "float_mean [2 ^ 1023, 2 ^ 1023] = PosInf"
    using overflow_example by (simp add: float_mean_def float_sum_def del: power_numeral)
  from statistics_aggregates [of "''code''" ?q lengths_store] n(1)
  have a: "queue_max ?q lengths_store ''code'' = Inl InvalidStatistic" by blast
  from statistics_aggregates [of "''contentLength''" ?q lengths_store "[68, 14, 37]"]
    n(2) ok(1) fin(1) small
  have "queue_max ?q lengths_store ''contentLength''
          = Inr (spec_max (finite_values ?q lengths_store ''contentLength''))
        \<and> queue_min ?q lengths_store ''contentLength''
          = Inr (spec_min (finite_values ?q lengths_store ''contentLength''))
        \<and> queue_avg ?q lengths_store ''contentLength''
          = Inr (nearest_double (spec_avg (finite_values ?q lengths_store ''contentLength'')))"
    by blast
  then have b: "queue_max ?q lengths_store ''contentLength'' = Inr (Fin 68)"
          "queue_min ?q lengths_store ''contentLength'' = Inr (Fin 14)"
          "queue_avg ?q lengths_store ''contentLength''
             = Inr (Fin (5582587038094677 / 140737488355328))"
    unfolding fin sm nearest_double.simps rd by simp_all
  from statistics_aggregates [of "''contentLength''" ?e lengths_store] n(2) ok(2)
  have c: "queue_avg ?e lengths_store ''contentLength'' = Inr NaN" by blast
  from statistics_aggregates [of "''contentLength''" ?g huge_lengths_store] n(2)
  have "queue_avg ?g huge_lengths_store ''contentLength''
          = Inr (float_mean (finite_values ?g huge_lengths_store ''contentLength''))"
    by blast
  then have d: "queue_avg ?g huge_lengths_store ''contentLength'' = Inr PosInf"
    unfolding fin hm .
  from n a b c d show ?thesis by blast
qed

text \<open>
  C4, the claim as written fails. The queue holds one fetched item whose content length is
  \<open>Infinity\<close>. The field has no finite value among the fetched items, so the maximum over
  the finite values is that of the empty set, 0; \<open>max\<close> yields \<open>Infinity\<close>.
\<close>

theorem statistics_max_counterexample:
  "queue_max endless_length_queue endless_length_store ''contentLength'' = Inr PosInf
   \<and> finite_values endless_length_queue endless_length_store ''contentLength'' = []
   \<and> spec_max [] = Fin 0"
  by (simp add: queue_max_def allowedStatistics_def max_body_def endless_length_store_def
        endless_length_queue_def test_item_def statistic_def empty_stateData_def jgt_def
        finite_values_def fetched_values_def spec_max_def)

section \<open>Cookies through a Set-Cookie string and back\<close>

lemma rstrip_plain: "s = [] \<or> \<not> js_space (last s) \<Longrightarrow> rstrip s = s"
proof (cases s rule: rev_cases)
  case Nil
  then show ?thesis by (simp add: rstrip_def)
next
  case (snoc xs x)
  assume "s = [] \<or> \<not> js_space (last s)"
  with snoc show ?thesis by (simp add: rstrip_def)
qed

lemma split_no_semicolon: "CHR '';'' \<notin> set s \<Longrightarrow> split_semicolons s = [s]"
  by (simp add: split_semicolons.simps [of s])

lemma dropWhile_space_id: "r = [] \<or> \<not> js_space (hd r) \<Longrightarrow> dropWhile js_space r = r"
  by (cases r) auto

lemma split_plain:
  assumes "plain seg" and "r = [] \<or> \<not> js_space (hd r)"
  shows "split_semicolons (seg @ ''; '' @ r) = seg # split_semicolons r"
proof -
  let ?s = "seg @ ''; '' @ r"
  have no: "\<forall>c \<in> set seg. c \<noteq> CHR '';''" using assms(1) by (auto simp: plain_def)
  have tw: "takeWhile (\<lambda>c. c \<noteq> CHR '';'') ?s = seg"
    using no by (simp add: takeWhile_tail)
  have dw: "dropWhile (\<lambda>c. c \<noteq> CHR '';'') ?s = ''; '' @ r"
    using no by (simp add: dropWhile_append)
  have sp: "js_space (CHR '' '')" by (simp add: js_space_def)
  have "split_semicolons ?s =
          rstrip seg # split_semicolons (dropWhile js_space (tl (''; '' @ r)))"
    by (subst split_semicolons.simps) (simp only: tw dw, simp)
  also have "dropWhile js_space (tl (''; '' @ r)) = r"
    using dropWhile_space_id [OF assms(2)] sp by simp
  also have "rstrip seg = seg" using assms(1) by (intro rstrip_plain) (simp add: plain_def)
  finally show ?thesis .
qed

lemma parseKeyVal_pair:
  "CHR ''='' \<notin> set k \<Longrightarrow> parseKeyVal (k @ ''='' @ v) = (k, v)"
  by (simp add: parseKeyVal_def takeWhile_tail dropWhile_append)

lemma strip_header_Set_Cookie:
  "b = [] \<or> \<not> js_space (hd b) \<Longrightarrow> strip_header (''Set-Cookie: '' @ b) = b"
  using dropWhile_space_id [of b]
  by (simp add: strip_header_def js_space_def lower_char_def)


lemma plain_nameval:
  "CHR '';'' \<notin> set k \<Longrightarrow> plain v \<Longrightarrow> plain (k @ ''='' @ v)"
  by (auto simp: plain_def js_space_def)

lemma attribute_keys:
  "attribute_key ''Expires'' = ''expires''" "attribute_key ''Path'' = ''path''"
  "attribute_key ''Domain'' = ''domain''" "attribute_key ''Httponly'' = ''httponly''"
  by (simp_all add: attribute_key_def lower_char_def lower_alnum_def)

lemma store_attribute_pair:
  "CHR ''='' \<notin> set k \<Longrightarrow> store_attribute m (k @ ''='' @ v) = m(attribute_key k \<mapsto> v)"
  using parseKeyVal_pair [of k v] by (simp add: store_attribute_def Let_def)

lemma store_attribute_Httponly:
  "store_attribute m ''Httponly'' = m(''httponly'' \<mapsto> [])"
  using attribute_keys(4) by (simp add: store_attribute_def parseKeyVal_def Let_def)

lemma not_blank_attribute: "not_blank (''Expires='' @ v)" "not_blank (''Path='' @ v)"
  "not_blank (''Domain='' @ v)" "not_blank ''Httponly''" "\<not> not_blank []"
  by (simp_all add: not_blank_def js_space_def)

text \<open>The pieces of the string that toString writes.\<close>

lemma toString_parts:
  assumes "name c \<noteq> []" "\<not> js_space (hd (name c))" "CHR '';'' \<notin> set (name c)"
      and "plain (value c)" "path c \<noteq> []" "plain (path c)" "domain c \<noteq> []" "plain (domain c)"
      and "jgt (expires c) (Fin 0) \<longrightarrow> plain (utc (expires c))"
  shows "split_semicolons (strip_header (toString utc c True)) =
           (name c @ ''='' @ value c)
           # (if jgt (expires c) (Fin 0) then [''Expires='' @ utc (expires c)] else [])
           @ [''Path='' @ path c, ''Domain='' @ domain c]
           @ (if httponly c then [''Httponly''] else [])
           @ [[]]"
proof -
  let ?nv = "name c @ ''='' @ value c"
  let ?h = "if httponly c then ''Httponly; '' else []"
  let ?d = "''Domain='' @ domain c @ ''; '' @ ?h"
  let ?p = "''Path='' @ path c @ ''; '' @ ?d"
  let ?e = "(if jgt (expires c) (Fin 0) then ''Expires='' @ utc (expires c) @ ''; '' else []) @ ?p"
  have ns: "\<not> js_space (CHR ''E'')" "\<not> js_space (CHR ''P'')" "\<not> js_space (CHR ''D'')"
           "\<not> js_space (CHR ''H'')"
    by (simp_all add: js_space_def)
  have str: "toString utc c True = ''Set-Cookie: '' @ ?nv @ ''; '' @ ?e"
    using assms(5,7) by (simp add: toString_def toOutboundString_def)
  have "strip_header (''Set-Cookie: '' @ (?nv @ ''; '' @ ?e)) = ?nv @ ''; '' @ ?e"
    using assms(1,2) by (intro strip_header_Set_Cookie) (cases "name c", simp_all)
  then have sh: "strip_header (toString utc c True) = ?nv @ ''; '' @ ?e"
    by (simp only: str)
  have h: "split_semicolons ?h = (if httponly c then [''Httponly''] else []) @ [[]]"
  proof (cases "httponly c")
    case True
    have "split_semicolons (''Httponly'' @ ''; '' @ []) = ''Httponly'' # split_semicolons []"
      by (intro split_plain) (simp_all add: plain_def js_space_def)
    with True show ?thesis by (simp add: split_no_semicolon)
  next
    case False
    then show ?thesis by (simp add: split_no_semicolon)
  qed
  have d: "split_semicolons ?d = (''Domain='' @ domain c) # split_semicolons ?h"
    using split_plain [of "''Domain='' @ domain c" ?h]
      plain_nameval [of "''Domain''" "domain c"] assms(8) ns
    by simp
  have p: "split_semicolons ?p = (''Path='' @ path c) # split_semicolons ?d"
    using split_plain [of "''Path='' @ path c" ?d]
      plain_nameval [of "''Path''" "path c"] assms(6) ns
    by simp
  have e: "split_semicolons ?e =
             (if jgt (expires c) (Fin 0) then [''Expires='' @ utc (expires c)] else [])
             @ split_semicolons ?p"
  proof (cases "jgt (expires c) (Fin 0)")
    case True
    with assms(9) have "plain (utc (expires c))" by simp
    then have "split_semicolons ((''Expires='' @ utc (expires c)) @ ''; '' @ ?p)
                 = (''Expires='' @ utc (expires c)) # split_semicolons ?p"
      using split_plain [of "''Expires='' @ utc (expires c)" ?p]
        plain_nameval [of "''Expires''" "utc (expires c)"] ns
      by simp
    with True show ?thesis by simp
  next
    case False
    then show ?thesis by simp
  qed
  have nv: "split_semicolons (?nv @ ''; '' @ ?e) = ?nv # split_semicolons ?e"
    using split_plain [of ?nv ?e] plain_nameval [of "name c" "value c"] assms(3,4) ns
    by simp
  show ?thesis unfolding sh nv e p d h by simp
qed


lemma store_known_attribute:
  "store_attribute m (''Expires='' @ v) = m(''expires'' \<mapsto> v)"
  "store_attribute m (''Path='' @ v) = m(''path'' \<mapsto> v)"
  "store_attribute m (''Domain='' @ v) = m(''domain'' \<mapsto> v)"
  using store_attribute_pair [of "''Expires''" m v] store_attribute_pair [of "''Path''" m v]
    store_attribute_pair [of "''Domain''" m v] attribute_keys
  by simp_all

lemma fromString_of_parts:
  assumes "str \<noteq> []"
      and "split_semicolons (strip_header str) = nv # attrs @ [[]]"
      and "parseKeyVal nv = (n, v)"
      and "foldl store_attribute [''name'' \<mapsto> n, ''value'' \<mapsto> v] (filter not_blank attrs) = m"
  shows "fromString dp str =
           new_Cookie dp (lookup_or_empty m ''name'') (Some (lookup_or_empty m ''value''))
             (case m ''expires'' of
                Some (c # cs) \<Rightarrow> ExpString (c # cs)
              | _ \<Rightarrow> (case m ''expiry'' of None \<Rightarrow> ExpOmitted | Some e \<Rightarrow> ExpString e))
             (m ''path'') (m ''domain'') (Some (m ''httponly'' \<noteq> None))"
  using assms
  by (simp add: fromString_def Let_def not_blank_attribute(5)
        cong: option.case_cong list.case_cong)

lemma attributes_stored:
  "foldl store_attribute m0
     (filter not_blank
        ((if ex then [''Expires='' @ d] else [])
         @ [''Path='' @ p, ''Domain='' @ dm]
         @ (if ho then [''Httponly''] else [])))
   = (let m1 = (if ex then m0(''expires'' \<mapsto> d) else m0);
          m2 = m1(''path'' \<mapsto> p, ''domain'' \<mapsto> dm)
      in if ho then m2(''httponly'' \<mapsto> []) else m2)"
  by (cases ex; cases ho)
     (simp_all only: filter.simps filter_append not_blank_attribute if_True if_False
        foldl.simps foldl_append store_known_attribute store_attribute_Httponly Let_def)

text \<open>
  C6 (as the code has it). Take a cookie whose name is not empty, holds no \<open>=\<close> and no
  semicolon and does not start with white space; whose value, path and domain hold no
  semicolon and do not end with white space; whose path and domain are not empty; and
  whose \<open>expires\<close> is \<open>-1\<close>, or is positive and is given back by the runtime when the date
  string it prints for it (not empty, no semicolon, no white space at the end) is parsed.
  Then \<open>Cookie.fromString(c.toString(true))\<close> is a cookie with the same name, value,
  expires, path, domain and httponly.
\<close>

theorem cookie_roundtrip:
  assumes "name c \<noteq> []" and "\<not> js_space (hd (name c))"
      and "CHR ''='' \<notin> set (name c)" and "CHR '';'' \<notin> set (name c)"
      and "plain (value c)"
      and "path c \<noteq> []" and "plain (path c)"
      and "domain c \<noteq> []" and "plain (domain c)"
      and "expires c = Fin (- 1)
           \<or> (jgt (expires c) (Fin 0) \<and> toUTCString (expires c) \<noteq> []
              \<and> plain (toUTCString (expires c))
              \<and> dateParse (toUTCString (expires c)) = expires c)"
  shows "fromString dateParse (toString toUTCString c True) = Inr c"
proof -
  let ?str = "toString toUTCString c True"
  let ?ex = "jgt (expires c) (Fin 0)"
  let ?d = "toUTCString (expires c)"
  let ?attrs = "(if ?ex then [''Expires='' @ ?d] else [])
                @ [''Path='' @ path c, ''Domain='' @ domain c]
                @ (if httponly c then [''Httponly''] else [])"
  let ?m0 = "[''name'' \<mapsto> name c, ''value'' \<mapsto> value c]"
  let ?m = "(let m1 = (if ?ex then ?m0(''expires'' \<mapsto> ?d) else ?m0);
                m2 = m1(''path'' \<mapsto> path c, ''domain'' \<mapsto> domain c)
            in if httponly c then m2(''httponly'' \<mapsto> []) else m2)"
  have ne: "?str \<noteq> []" by (simp add: toString_def)
  have pl: "?ex \<longrightarrow> plain ?d"
    using assms(10) by (auto simp: jgt_def)
  have parts: "split_semicolons (strip_header ?str) = (name c @ ''='' @ value c) # ?attrs @ [[]]"
    using toString_parts [of c toUTCString, OF assms(1,2,4,5,6,7,8,9) pl] by simp
  have nv: "parseKeyVal (name c @ ''='' @ value c) = (name c, value c)"
    using assms(3) by (rule parseKeyVal_pair)
  note fs = fromString_of_parts [of ?str "name c @ ''='' @ value c" ?attrs "name c" "value c" ?m
               dateParse, OF ne parts nv attributes_stored]
  have look: "lookup_or_empty ?m ''name'' = name c" "lookup_or_empty ?m ''value'' = value c"
       "?m ''path'' = Some (path c)" "?m ''domain'' = Some (domain c)"
       "(?m ''httponly'' \<noteq> None) = httponly c" "?m ''expiry'' = None"
       "?m ''expires'' = (if ?ex then Some ?d else None)"
    by (simp_all add: lookup_or_empty_def Let_def)
  have ex: "(case (if ?ex then Some ?d else None) of
               Some (x # xs) \<Rightarrow> ExpString (x # xs)
             | _ \<Rightarrow> (case None of None \<Rightarrow> ExpOmitted | Some e \<Rightarrow> ExpString e))
            = (if ?ex then ExpString ?d else ExpOmitted)"
    using assms(10) by (cases ?d) (auto simp: jgt_def)
  have "fromString dateParse ?str =
          new_Cookie dateParse (name c) (Some (value c))
            (if ?ex then ExpString ?d else ExpOmitted)
            (Some (path c)) (Some (domain c)) (Some (httponly c))"
    unfolding fs look ex ..
  also have "\<dots> = Inr \<lparr> name = name c, value = value c, expires = expires c, path = path c,
                        domain = domain c, httponly = httponly c \<rparr>"
    using assms(1,10) by (auto simp: new_Cookie_def jgt_def)
  finally show ?thesis by simp
qed

theorem cookie_roundtrip_witness:
  "name full_cookie \<noteq> [] \<and> plain (value full_cookie) \<and> plain (path full_cookie)
   \<and> plain (domain full_cookie) \<and> jgt (expires full_cookie) (Fin 0)
   \<and> epoch_dateParse (epoch_toUTCString (expires full_cookie)) = expires full_cookie
   \<and> fromString epoch_dateParse (toString epoch_toUTCString full_cookie True) = Inr full_cookie"
proof -
  have h: "name full_cookie \<noteq> []" "\<not> js_space (hd (name full_cookie))"
      "CHR ''='' \<notin> set (name full_cookie)" "CHR '';'' \<notin> set (name full_cookie)"
      "plain (value full_cookie)"
      "path full_cookie \<noteq> []" "plain (path full_cookie)"
      "domain full_cookie \<noteq> []" "plain (domain full_cookie)"
    by (simp_all add: full_cookie_def plain_def js_space_def)
  have e: "jgt (expires full_cookie) (Fin 0)"
      "epoch_toUTCString (expires full_cookie) \<noteq> []"
      "plain (epoch_toUTCString (expires full_cookie))"
      "epoch_dateParse (epoch_toUTCString (expires full_cookie)) = expires full_cookie"
    by (simp_all add: full_cookie_def plain_def js_space_def jgt_def epoch_toUTCString_def
          epoch_dateParse_def)
  from e have "expires full_cookie = Fin (- 1)
           \<or> (jgt (expires full_cookie) (Fin 0) \<and> epoch_toUTCString (expires full_cookie) \<noteq> []
              \<and> plain (epoch_toUTCString (expires full_cookie))
              \<and> epoch_dateParse (epoch_toUTCString (expires full_cookie)) = expires full_cookie)"
    by blast
  from cookie_roundtrip [of full_cookie epoch_toUTCString epoch_dateParse, OF h this] h e
  show ?thesis by blast
qed

text \<open>
  C6, the claim as written fails. A cookie with an empty path, as the constructor accepts
  it and as \<open>fromString\<close> builds it from \<open>sid=1; Path=; Domain=example.com\<close>, is written
  without a \<open>Path\<close> attribute, and reading the string back gives the default path \<open>/\<close>.
\<close>

theorem cookie_roundtrip_counterexample:
  "toString epoch_toUTCString pathless_cookie True = ''Set-Cookie: sid=1; Domain=example.com; ''
   \<and> fromString epoch_dateParse (toString epoch_toUTCString pathless_cookie True)
       = Inr (pathless_cookie\<lparr> path := ''/'' \<rparr>)
   \<and> path pathless_cookie = []"
proof -
  let ?str = "''Set-Cookie: sid=1; Domain=example.com; ''"
  let ?m0 = "[''name'' \<mapsto> ''sid'', ''value'' \<mapsto> ''1'']"
  have s: "toString epoch_toUTCString pathless_cookie True = ?str"
    by (simp add: toString_def toOutboundString_def pathless_cookie_def jgt_def)
  have ne: "?str \<noteq> []" by simp
  have h: "strip_header ?str = ''sid=1; Domain=example.com; ''"
    by (simp add: strip_header_def js_space_def lower_char_def)
  have a: "split_semicolons (''sid=1'' @ ''; '' @ ''Domain=example.com; '')
             = ''sid=1'' # split_semicolons ''Domain=example.com; ''"
    by (rule split_plain) (simp_all add: plain_def js_space_def)
  have b: "split_semicolons (''Domain=example.com'' @ ''; '' @ [])
             = ''Domain=example.com'' # split_semicolons []"
    by (rule split_plain) (simp_all add: plain_def js_space_def)
  from a b have p: "split_semicolons ''sid=1; Domain=example.com; ''
                      = [''sid=1'', ''Domain=example.com'', []]"
    by (simp add: split_no_semicolon)
  have parts: "split_semicolons (strip_header ?str) = ''sid=1'' # [''Domain=example.com''] @ [[]]"
    unfolding h p by simp
  have nvp: "parseKeyVal ''sid=1'' = (''sid'', ''1'')"
    by (simp add: parseKeyVal_def)
  have kv: "foldl store_attribute ?m0 (filter not_blank [''Domain=example.com''])
              = ?m0(''domain'' \<mapsto> ''example.com'')"
    using store_known_attribute(3) [of ?m0 "''example.com''"]
      not_blank_attribute(3) [of "''example.com''"]
    by simp
  note fs = fromString_of_parts [OF ne parts nvp kv, of epoch_dateParse]
  have "fromString epoch_dateParse ?str = Inr (pathless_cookie\<lparr> path := ''/'' \<rparr>)"
    unfolding fs by (simp add: lookup_or_empty_def new_Cookie_def pathless_cookie_def)
  with s show ?thesis by (simp add: pathless_cookie_def)
qed

section \<open>Admission\<close>

subsection \<open>The order of the answers\<close>







subsection \<open>What the conditions do, and what the iteratee hands on\<close>









subsection \<open>The stages of a call\<close>











section \<open>The status of a fetched item\<close>


























end
